theory Spec2Isabelle
  imports Complex_Main "HOL-Library.Sublist"
begin

section \<open>JavaScript strings\<close>

text \<open>
  A JavaScript string is a sequence of UTF-16 code units. A code unit is modelled by its
  number, so that \<open>input[i]\<close>, \<open>indexOf\<close>, \<open>slice\<close>, \<open>trim\<close> and the regular
  expressions of the source count and compare exactly what the program counts and compares.
  \<open>str ''...''\<close> is the string with the code units of an ASCII literal.
\<close>

type_synonym jsstring = "nat list"

abbreviation str :: "string \<Rightarrow> jsstring" where
  "str s \<equiv> map of_char s"

abbreviation DQUOTE :: nat where "DQUOTE \<equiv> 34"
abbreviation BACKSLASH :: nat where "BACKSLASH \<equiv> 92"
abbreviation LF :: nat where "LF \<equiv> 10"
abbreviation CR :: nat where "CR \<equiv> 13"
abbreviation BACKTICK :: nat where "BACKTICK \<equiv> 96"
abbreviation LBRACE :: nat where "LBRACE \<equiv> 123"
abbreviation RBRACE :: nat where "RBRACE \<equiv> 125"

section \<open>The newline escaper (\<open>escapeNewlinesInStrings\<close>)\<close>

text \<open>
  The source keeps two flags and an output buffer and visits the code units from left to
  right. The loop body is \<open>esc_step\<close>, one branch per \<open>if\<close> of the source and in the
  source's order; the loop is a \<open>fold\<close> from the initial state.
\<close>

record esc_state =
  inString :: bool
  escaped :: bool
  out :: jsstring

definition esc_init :: esc_state where
  "esc_init = \<lparr>inString = False, escaped = False, out = []\<rparr>"

definition esc_step :: "nat \<Rightarrow> esc_state \<Rightarrow> esc_state" where
  "esc_step ch s =
     (if \<not> inString s then
        (if ch = DQUOTE then s\<lparr>inString := True, out := out s @ [ch]\<rparr>
         else s\<lparr>out := out s @ [ch]\<rparr>)
      else if escaped s then s\<lparr>out := out s @ [ch], escaped := False\<rparr>
      else if ch = BACKSLASH then s\<lparr>out := out s @ [ch], escaped := True\<rparr>
      else if ch = DQUOTE then s\<lparr>out := out s @ [ch], inString := False\<rparr>
      else if ch = LF then s\<lparr>out := out s @ [BACKSLASH, of_char CHR ''n'']\<rparr>
      else if ch = CR then s
      else s\<lparr>out := out s @ [ch]\<rparr>)"

definition escapeNewlinesInStrings :: "jsstring \<Rightarrow> jsstring" where
  "escapeNewlinesInStrings input = out (fold esc_step input esc_init)"

subsection \<open>The escaper as the specification words it\<close>

text \<open>
  The specification describes the escaper as a scanner with three states: outside every
  string literal, inside one, and inside one right after a backslash. Each code unit is
  answered by the text it contributes to the output: outside, the unit itself, and a double
  quote opens a literal; after a backslash, the unit itself whatever it is; inside, a
  backslash is copied and arms the escape, a double quote is copied and closes the literal,
  a newline becomes backslash-n, a carriage return contributes nothing, anything else is
  copied.
\<close>

datatype scanner = Outside | InString | InStringEscaped

fun scan_step :: "scanner \<Rightarrow> nat \<Rightarrow> scanner \<times> jsstring" where
  "scan_step Outside c = (if c = DQUOTE then InString else Outside, [c])"
| "scan_step InStringEscaped c = (InString, [c])"
| "scan_step InString c =
     (if c = BACKSLASH then (InStringEscaped, [c])
      else if c = DQUOTE then (Outside, [c])
      else if c = LF then (InString, [BACKSLASH, of_char CHR ''n''])
      else if c = CR then (InString, [])
      else (InString, [c]))"

fun scan_from :: "scanner \<Rightarrow> jsstring \<Rightarrow> jsstring" where
  "scan_from st [] = []"
| "scan_from st (c # cs) = snd (scan_step st c) @ scan_from (fst (scan_step st c)) cs"

definition scanner_of :: "esc_state \<Rightarrow> scanner" where
  "scanner_of s = (if \<not> inString s then Outside
                   else if escaped s then InStringEscaped else InString)"

text \<open>The state the scanner is in after a stretch of text.\<close>

fun scan_state :: "scanner \<Rightarrow> jsstring \<Rightarrow> scanner" where
  "scan_state st [] = st"
| "scan_state st (c # cs) = scan_state (fst (scan_step st c)) cs"

section \<open>JavaScript values\<close>

text \<open>
  \<open>JSON.parse\<close> returns an untyped value; the TypeScript annotation \<open>LLMResponse\<close> is
  erased at run time. The values are therefore modelled as they are at run time. An object
  is the list of its own properties in insertion order, each key once; reading a property
  that is absent gives \<open>undefined\<close>. Numbers are kept exact (a rational); the rounding of
  a decimal literal to a binary64 float is not modelled.
\<close>

datatype js =
    JUndefined
  | JNull
  | JBool bool
  | JNum rat
  | JStr jsstring
  | JArr "js list"
  | JObj "(jsstring \<times> js) list"

type_synonym props = "(jsstring \<times> js) list"

fun get_prop :: "props \<Rightarrow> jsstring \<Rightarrow> js" where
  "get_prop [] k = JUndefined"
| "get_prop ((k', v) # ps) k = (if k' = k then v else get_prop ps k)"

fun set_prop :: "jsstring \<Rightarrow> js \<Rightarrow> props \<Rightarrow> props" where
  "set_prop k v [] = [(k, v)]"
| "set_prop k v ((k', v') # ps) = (if k' = k then (k, v) # ps else (k', v') # set_prop k v ps)"

datatype error = Error jsstring | TypeError

text \<open>The decimal name of an array index, as the key of the property it becomes.\<close>

fun decimal :: "nat \<Rightarrow> jsstring" where
  "decimal n = (if n < 10 then [48 + n] else decimal (n div 10) @ [48 + n mod 10])"

fun indexed :: "nat \<Rightarrow> js list \<Rightarrow> props" where
  "indexed i [] = []"
| "indexed i (v # vs) = (decimal i, v) # indexed (Suc i) vs"

text \<open>
  \<open>{...s}\<close>: the own enumerable properties of \<open>s\<close>. \<open>null\<close>, \<open>undefined\<close>, booleans
  and numbers have none; a string and an array have their indices.
\<close>

fun spread :: "js \<Rightarrow> props" where
  "spread (JObj ps) = ps"
| "spread (JArr vs) = indexed 0 vs"
| "spread (JStr cs) = indexed 0 (map (\<lambda>c. JStr [c]) cs)"
| "spread _ = []"

section \<open>Context records and \<open>queryPinecone\<close>\<close>

record QueryResult =
  file' :: jsstring
  chunkIndex :: rat
  startLine :: rat
  endLine :: rat
  text' :: jsstring
  score :: rat

text \<open>
  A match of the Pinecone response: \<open>metadata\<close> and \<open>score\<close> are optional, and so is each
  field of the metadata (\<open>Partial<Pick<QueryResult, ...>>\<close>).
\<close>

record MatchMetadata =
  md_file :: "jsstring option"
  md_chunkIndex :: "rat option"
  md_startLine :: "rat option"
  md_endLine :: "rat option"
  md_text :: "jsstring option"

record Match =
  metadata :: "MatchMetadata option"
  match_score :: "rat option"

text \<open>
  \<open>x || d\<close>: the default replaces a falsy \<open>x\<close>, that is \<open>undefined\<close>, the empty string
  and the number zero. \<open>match.metadata?.f\<close> is \<open>undefined\<close> when the metadata is.
\<close>

definition str_or :: "jsstring option \<Rightarrow> jsstring \<Rightarrow> jsstring" where
  "str_or x d = (case x of None \<Rightarrow> d | Some s \<Rightarrow> if s = [] then d else s)"

definition num_or :: "rat option \<Rightarrow> rat \<Rightarrow> rat" where
  "num_or x d = (case x of None \<Rightarrow> d | Some n \<Rightarrow> if n = 0 then d else n)"

definition opt_field :: "MatchMetadata option \<Rightarrow> (MatchMetadata \<Rightarrow> 'a option) \<Rightarrow> 'a option" where
  "opt_field m f = (case m of None \<Rightarrow> None | Some md \<Rightarrow> f md)"

definition format_match :: "Match \<Rightarrow> QueryResult" where
  "format_match m =
     \<lparr>file' = str_or (opt_field (metadata m) md_file) (str ''unknown''),
      chunkIndex = num_or (opt_field (metadata m) md_chunkIndex) 0,
      startLine = num_or (opt_field (metadata m) md_startLine) 0,
      endLine = num_or (opt_field (metadata m) md_endLine) 0,
      text' = str_or (opt_field (metadata m) md_text) [],
      score = num_or (match_score m) 0\<rparr>"

text \<open>
  The two network calls of \<open>queryPinecone\<close> are its parameters: the outcome of
  \<open>embedContent\<close> (the list of embeddings, each with its values, when the response has
  one) and the index query as a function of the vector it is given (the matches, when the
  response has them).
\<close>

definition queryPinecone ::
  "(error + rat list list option) \<Rightarrow> (rat list \<Rightarrow> error + Match list option) \<Rightarrow>
   error + QueryResult list" where
  "queryPinecone embedContent query =
     (case embedContent of
        Inl e \<Rightarrow> Inl e
      | Inr None \<Rightarrow> Inl (Error (str ''Failed to generate query embedding''))
      | Inr (Some []) \<Rightarrow> Inl (Error (str ''Failed to generate query embedding''))
      | Inr (Some (queryEmbedding # _)) \<Rightarrow>
          (case query queryEmbedding of
             Inl e \<Rightarrow> Inl e
           | Inr None \<Rightarrow> Inr []
           | Inr (Some matches) \<Rightarrow> Inr (map format_match matches)))"

section \<open>Enrichment of the suggestions\<close>

text \<open>
  \<open>s.target_file\<close> raises a TypeError on \<open>null\<close> and \<open>undefined\<close>, reads the property
  of an object, and is \<open>undefined\<close> on every other value.
\<close>

fun target_file_of :: "js \<Rightarrow> error + js" where
  "target_file_of JNull = Inl TypeError"
| "target_file_of JUndefined = Inl TypeError"
| "target_file_of (JObj ps) = Inr (get_prop ps (str ''target_file''))"
| "target_file_of _ = Inr JUndefined"

text \<open>
  \<open>docsContext.find(d => d.file === s.target_file)\<close>: the callback runs once per record
  until it answers true, so nothing is read from \<open>s\<close> when the context is empty. \<open>===\<close>
  between the string \<open>d.file\<close> and a value holds when the value is that same string.
\<close>

fun find_doc :: "QueryResult list \<Rightarrow> js \<Rightarrow> error + QueryResult option" where
  "find_doc [] s = Inr None"
| "find_doc (d # ds) s =
     (case target_file_of s of
        Inl e \<Rightarrow> Inl e
      | Inr tf \<Rightarrow> if JStr (file' d) = tf then Inr (Some d) else find_doc ds s)"

definition line_of :: "(QueryResult \<Rightarrow> rat) \<Rightarrow> QueryResult option \<Rightarrow> js" where
  "line_of f matchingDoc = (case matchingDoc of None \<Rightarrow> JUndefined | Some d \<Rightarrow> JNum (f d))"

definition enrich_suggestion :: "QueryResult list \<Rightarrow> js \<Rightarrow> error + js" where
  "enrich_suggestion docsContext s =
     (case find_doc docsContext s of
        Inl e \<Rightarrow> Inl e
      | Inr matchingDoc \<Rightarrow>
          Inr (JObj (set_prop (str ''end_line'') (line_of endLine matchingDoc)
                      (set_prop (str ''start_line'') (line_of startLine matchingDoc)
                        (spread s)))))"

text \<open>\<open>Array.prototype.map\<close> with a callback that may raise: the first error ends it.\<close>

fun map_err :: "('a \<Rightarrow> error + 'b) \<Rightarrow> 'a list \<Rightarrow> error + 'b list" where
  "map_err f [] = Inr []"
| "map_err f (x # xs) =
     (case f x of
        Inl e \<Rightarrow> Inl e
      | Inr y \<Rightarrow> (case map_err f xs of Inl e \<Rightarrow> Inl e | Inr ys \<Rightarrow> Inr (y # ys)))"

text \<open>
  \<open>parsed.suggestions\<close> raises a TypeError on \<open>null\<close>, reads the property of an object
  and is \<open>undefined\<close> on every other value; \<open>.map\<close> is a function on an array only
  (on an object of JSON values a property \<open>map\<close> is never callable). The assignment
  replaces the property in place.
\<close>

definition enrich :: "QueryResult list \<Rightarrow> js \<Rightarrow> error + js" where
  "enrich docsContext parsed =
     (case parsed of
        JObj ps \<Rightarrow>
          (case get_prop ps (str ''suggestions'') of
             JArr ss \<Rightarrow>
               (case map_err (enrich_suggestion docsContext) ss of
                  Inl e \<Rightarrow> Inl e
                | Inr ss' \<Rightarrow> Inr (JObj (set_prop (str ''suggestions'') (JArr ss') ps)))
           | _ \<Rightarrow> Inl TypeError)
      | _ \<Rightarrow> Inl TypeError)"

subsection \<open>Well-typed values\<close>

text \<open>
  The interfaces \<open>Suggestion\<close> and \<open>LLMResponse\<close> of the source, as predicates on run-time
  values. An optional field is absent (or \<open>undefined\<close>) or of its type.
\<close>

fun is_string :: "js \<Rightarrow> bool" where
  "is_string (JStr _) = True"
| "is_string _ = False"

fun is_opt_string :: "js \<Rightarrow> bool" where
  "is_opt_string (JStr _) = True"
| "is_opt_string JUndefined = True"
| "is_opt_string _ = False"

fun is_opt_number :: "js \<Rightarrow> bool" where
  "is_opt_number (JNum _) = True"
| "is_opt_number JUndefined = True"
| "is_opt_number _ = False"

definition one_of :: "string list \<Rightarrow> js \<Rightarrow> bool" where
  "one_of names v = (v \<in> set (map (\<lambda>n. JStr (str n)) names))"

fun is_object :: "js \<Rightarrow> bool" where
  "is_object (JObj _) = True"
| "is_object _ = False"

fun wt_Suggestion :: "js \<Rightarrow> bool" where
  "wt_Suggestion (JObj qs) =
     (is_string (get_prop qs (str ''target_file'')) \<and>
      is_string (get_prop qs (str ''target_section'')) \<and>
      one_of [''update'', ''add'', ''remove''] (get_prop qs (str ''type'')) \<and>
      is_string (get_prop qs (str ''rationale'')) \<and>
      is_string (get_prop qs (str ''suggested_text'')) \<and>
      one_of [''info'', ''warning'', ''critical''] (get_prop qs (str ''severity'')) \<and>
      is_opt_number (get_prop qs (str ''start_line'')) \<and>
      is_opt_number (get_prop qs (str ''end_line'')))"
| "wt_Suggestion _ = False"

fun wt_suggestions :: "js \<Rightarrow> bool" where
  "wt_suggestions (JArr ss) = list_all wt_Suggestion ss"
| "wt_suggestions _ = False"

fun wt_LLMResponse :: "js \<Rightarrow> bool" where
  "wt_LLMResponse (JObj ps) =
     (one_of [''none'', ''low'', ''medium'', ''high''] (get_prop ps (str ''impact_level'')) \<and>
      is_string (get_prop ps (str ''summary'')) \<and>
      is_opt_string (get_prop ps (str ''comment_intro'')) \<and>
      wt_suggestions (get_prop ps (str ''suggestions'')))"
| "wt_LLMResponse _ = False"

subsection \<open>An example response and context\<close>

definition example_context :: "QueryResult list" where
  "example_context =
     [\<lparr>file' = str ''docs/a.md'', chunkIndex = 0, startLine = 10, endLine = 20,
       text' = str ''Guide section'', score = 9 / 10\<rparr>]"

definition example_suggestion :: "string \<Rightarrow> js" where
  "example_suggestion path =
     JObj [(str ''target_file'', JStr (str path)),
           (str ''target_section'', JStr (str ''Intro'')),
           (str ''type'', JStr (str ''update'')),
           (str ''rationale'', JStr (str ''Keep docs in sync'')),
           (str ''suggested_text'', JStr (str ''First line'')),
           (str ''severity'', JStr (str ''info''))]"

definition example_response :: js where
  "example_response =
     JObj [(str ''impact_level'', JStr (str ''low'')),
           (str ''summary'', JStr (str ''Update intro'')),
           (str ''suggestions'',
            JArr [example_suggestion ''docs/a.md'', example_suggestion ''docs/b.md''])]"

text \<open>The record \<open>queryPinecone\<close> returns for a match that carries nothing.\<close>

definition unknown_record :: QueryResult where
  "unknown_record =
     \<lparr>file' = str ''unknown'', chunkIndex = 0, startLine = 0, endLine = 0, text' = [], score = 0\<rparr>"

section \<open>String operations of the run-time library\<close>

text \<open>
  White space as \<open>String.prototype.trim\<close>, \<open>parseInt\<close> and the class \<open>\s\<close> of a regular
  expression see it: the WhiteSpace and LineTerminator code units of ECMAScript.
\<close>

definition is_space :: "nat \<Rightarrow> bool" where
  "is_space c =
     (c = 9 \<or> c = 10 \<or> c = 11 \<or> c = 12 \<or> c = 13 \<or> c = 32 \<or> c = 160 \<or> c = 5760 \<or>
      (8192 \<le> c \<and> c \<le> 8202) \<or> c = 8232 \<or> c = 8233 \<or> c = 8239 \<or> c = 8287 \<or>
      c = 12288 \<or> c = 65279)"

definition trim :: "jsstring \<Rightarrow> jsstring" where
  "trim s = rev (dropWhile is_space (rev (dropWhile is_space s)))"

fun join :: "jsstring \<Rightarrow> jsstring list \<Rightarrow> jsstring" where
  "join sep [] = []"
| "join sep [x] = x"
| "join sep (x # y # ys) = x @ sep @ join sep (y # ys)"

fun split_on :: "nat \<Rightarrow> jsstring \<Rightarrow> jsstring list" where
  "split_on d [] = [[]]"
| "split_on d (c # cs) =
     (if c = d then [] # split_on d cs
      else (case split_on d cs of [] \<Rightarrow> [[c]] | x # xs \<Rightarrow> (c # x) # xs))"

text \<open>\<open>x || d\<close> on a string that is always defined: the default replaces the empty string.\<close>

definition or_else :: "jsstring \<Rightarrow> jsstring \<Rightarrow> jsstring" where
  "or_else x d = (if x = [] then d else x)"

text \<open>
  \<open>String.prototype.includes\<close>: the pattern occurs as a contiguous run of code units.
\<close>

fun includes_str :: "jsstring \<Rightarrow> jsstring \<Rightarrow> bool" where
  "includes_str [] pat = (pat = [])"
| "includes_str (c # cs) pat = (prefix pat (c # cs) \<or> includes_str cs pat)"

text \<open>
  \<open>parseInt(s, 10)\<close>: leading white space, an optional sign, then the longest run of
  decimal digits; \<open>NaN\<close> (here \<open>None\<close>) when there is no digit. The value is kept exact.
\<close>

definition is_digit :: "nat \<Rightarrow> bool" where
  "is_digit c = (48 \<le> c \<and> c \<le> 57)"

definition digits_value :: "jsstring \<Rightarrow> nat" where
  "digits_value ds = foldl (\<lambda>a d. 10 * a + (d - 48)) 0 ds"

definition parseInt10 :: "jsstring \<Rightarrow> int option" where
  "parseInt10 s =
     (let t = dropWhile is_space s;
          neg = (t \<noteq> [] \<and> hd t = 45);
          u = (if t \<noteq> [] \<and> (hd t = 45 \<or> hd t = 43) then tl t else t);
          ds = takeWhile is_digit u
      in if ds = [] then None
         else Some (if neg then - int (digits_value ds) else int (digits_value ds)))"

section \<open>The comment upsert (\<open>postComment\<close>)\<close>

record ExistingComment =
  comment_id :: nat
  body :: jsstring

datatype write_call =
    UpdateComment nat jsstring
  | CreateComment int jsstring

datatype upsert = NeedsUpdate nat | NeedsCreate

text \<open>
  Modelled from the spec: the source file of \<open>postComment\<close> (\<open>pr-comment.ts\<close>) is not
  among the sources, only its tests are. The specification gives the coordinator two
  states, \<open>NeedsUpdate(id)\<close> and \<open>NeedsCreate\<close>, computed by one linear scan of the
  comments in the order the collaborator returned them, the first comment whose body
  contains the marker winning; then one write is issued: an update of that comment with the
  new body, or a create on the issue.
\<close>

fun upsert_state :: "jsstring \<Rightarrow> ExistingComment list \<Rightarrow> upsert" where
  "upsert_state marker [] = NeedsCreate"
| "upsert_state marker (c # cs) =
     (if includes_str (body c) marker then NeedsUpdate (comment_id c) else upsert_state marker cs)"

fun upsert_write :: "upsert \<Rightarrow> int \<Rightarrow> jsstring \<Rightarrow> write_call" where
  "upsert_write (NeedsUpdate i) issue new_body = UpdateComment i new_body"
| "upsert_write NeedsCreate issue new_body = CreateComment issue new_body"

fun is_update :: "write_call \<Rightarrow> bool" where
  "is_update (UpdateComment _ _) = True"
| "is_update (CreateComment _ _) = False"

fun is_create :: "write_call \<Rightarrow> bool" where
  "is_create (CreateComment _ _) = True"
| "is_create (UpdateComment _ _) = False"

section \<open>The action's entry point (\<open>run\<close>)\<close>

subsection \<open>Inputs\<close>

text \<open>
  \<open>getInput\<close> is only called with the ASCII names written in \<open>run\<close>, so
  \<open>toUpperCase\<close> is modelled on the ASCII letters. \<open>core.getInput\<close> and
  \<open>process.env\<close> belong to the world the action runs in.
\<close>

definition toUpperCase :: "jsstring \<Rightarrow> jsstring" where
  "toUpperCase s = map (\<lambda>c. if 97 \<le> c \<and> c \<le> 122 then c - 32 else c) s"

definition dashes_to_underscores :: "jsstring \<Rightarrow> jsstring" where
  "dashes_to_underscores s = map (\<lambda>c. if c = 45 then 95 else c) s"

definition getInput ::
  "(jsstring \<Rightarrow> jsstring) \<Rightarrow> (jsstring \<Rightarrow> jsstring option) \<Rightarrow> jsstring \<Rightarrow> bool \<Rightarrow> error + jsstring" where
  "getInput core_getInput env name required =
     (let actionInput = core_getInput name in
      if actionInput \<noteq> [] then Inr actionInput
      else
        let envVarName = str ''INPUT_'' @ dashes_to_underscores (toUpperCase name);
            envValue = (case env envVarName of
                          Some v \<Rightarrow> if v \<noteq> [] then Some v else env (toUpperCase name)
                        | None \<Rightarrow> env (toUpperCase name))
        in if (envValue = None \<or> envValue = Some []) \<and> required
           then Inl (Error (str ''Required input '' @ [39] @ name @ [39] @ str '' not provided''))
           else Inr (case envValue of None \<Rightarrow> [] | Some v \<Rightarrow> v))"

definition normalizeModelName :: "jsstring \<Rightarrow> jsstring" where
  "normalizeModelName model =
     (if model = [] then str ''models/gemini-2.5-pro''
      else if prefix (str ''models/'') model then model else str ''models/'' @ model)"

subsection \<open>The world of one run\<close>

record pull_request =
  title :: jsstring
  pr_body :: "jsstring option"

record pr_file =
  filename :: jsstring
  patch :: "jsstring option"

record search_response =
  nested_text :: "jsstring option"
  direct_text :: "jsstring option"

text \<open>
  A candidate of the model's response, as far as \<open>generateSuggestions\<close> reads it: the
  texts of the parts of its content (a part may have no text), when it has content and
  parts.
\<close>

type_synonym candidate = "jsstring option list option"

text \<open>
  Everything \<open>run\<close> reads from outside or calls outside: the inputs and the environment,
  the event payload, the GitHub calls, the two Gemini calls, the embedding and index calls
  of Pinecone, and the two functions of \<open>pr-comment.ts\<close> that are not among the sources
  (\<open>formatComment\<close>, and the bot's marker used by \<open>postComment\<close>). Each call answers with
  a value or raises. The prompt sent to Gemini is a function of the arguments
  \<open>generateSuggestions\<close> receives, so the call is given those.
\<close>

record world =
  core_getInput :: "jsstring \<Rightarrow> jsstring"
  env :: "jsstring \<Rightarrow> jsstring option"
  payload_pr_number :: "nat option"
  payload_repo_full_name :: "jsstring option"
  pulls_get :: "jsstring \<Rightarrow> jsstring \<Rightarrow> jsstring option \<Rightarrow> int \<Rightarrow> error + pull_request"
  pulls_listFiles :: "jsstring \<Rightarrow> jsstring \<Rightarrow> jsstring option \<Rightarrow> int \<Rightarrow> error + pr_file list"
  search_generateContent :: "jsstring \<Rightarrow> jsstring \<Rightarrow> jsstring \<Rightarrow> error + search_response"
  embedContent :: "jsstring \<Rightarrow> jsstring \<Rightarrow> error + rat list list option"
  index_query :: "jsstring \<Rightarrow> jsstring \<Rightarrow> rat list \<Rightarrow> int option \<Rightarrow> error + Match list option"
  suggest_generateContent ::
    "jsstring \<Rightarrow> jsstring \<Rightarrow> jsstring \<Rightarrow> jsstring \<Rightarrow> jsstring \<Rightarrow> QueryResult list \<Rightarrow> jsstring \<Rightarrow> jsstring
       \<Rightarrow> error + candidate list option"
  SUGGESTIONS_INTRO :: jsstring
  formatComment :: "js \<Rightarrow> error + jsstring"
  bot_marker :: jsstring
  listComments :: "jsstring \<Rightarrow> jsstring \<Rightarrow> jsstring option \<Rightarrow> int \<Rightarrow> error + ExistingComment list"
  write_comment :: "jsstring \<Rightarrow> jsstring \<Rightarrow> jsstring option \<Rightarrow> write_call \<Rightarrow> error option"

subsection \<open>\<open>buildSearchQuery\<close>\<close>

definition file_snippet :: "pr_file \<Rightarrow> jsstring" where
  "file_snippet f =
     str ''File: '' @ filename f @ [LF] @ str ''Diff: '' @
     take 1200 (case patch f of None \<Rightarrow> [] | Some p \<Rightarrow> p)"

definition search_prompt :: "jsstring \<Rightarrow> jsstring \<Rightarrow> pr_file list \<Rightarrow> jsstring" where
  "search_prompt prTitle prBody files =
     join [LF]
       [str ''Summarize this PR into a concise documentation search query.'',
        str ''Output a single sentence, <=200 characters, no bullet points.'',
        str ''Focus on key components, APIs, or docs topics that would help review the PR.'',
        str ''PR title: '' @ prTitle,
        str ''PR body: '' @ or_else prBody (str ''(empty)''),
        str ''Files and diffs (truncated):'',
        or_else (join [LF, LF] (map file_snippet (take 5 files))) (str ''(no diff available)'')]"

definition search_fallback :: "jsstring \<Rightarrow> jsstring \<Rightarrow> pr_file list \<Rightarrow> jsstring" where
  "search_fallback prTitle prBody files =
     (let fallback =
            join (str '' | '')
              (filter (\<lambda>x. x \<noteq> [])
                 [or_else prTitle (str ''PR changes''),
                  join (str '', '') (map filename (take 5 files)),
                  prBody])
      in if fallback \<noteq> [] then take 200 fallback
         else str ''Documentation search for PR changes'')"

definition buildSearchQuery ::
  "world \<Rightarrow> jsstring \<Rightarrow> jsstring \<Rightarrow> jsstring \<Rightarrow> jsstring \<Rightarrow> pr_file list \<Rightarrow> error + jsstring" where
  "buildSearchQuery w geminiApiKey geminiModel prTitle prBody files =
     (case search_generateContent w geminiApiKey geminiModel (search_prompt prTitle prBody files) of
        Inl e \<Rightarrow> Inl e
      | Inr response \<Rightarrow>
          (let text = trim (case nested_text response of
                              Some t \<Rightarrow> t
                            | None \<Rightarrow> (case direct_text response of Some t \<Rightarrow> t | None \<Rightarrow> []))
           in if text \<noteq> [] then Inr (take 200 text)
              else Inr (search_fallback prTitle prBody files)))"

section \<open>\<open>JSON.parse\<close>\<close>

text \<open>
  \<open>JSON.parse\<close> is the run-time library's; it is modelled from the JSON grammar of
  ECMA-404 as ECMAScript applies it: white space is tab, line feed, carriage return and
  space; a string may not contain a raw code unit below U+0020, and has the escapes
  \<open>\" \\ \/ \b \f \n \r \t \uXXXX\<close>; a number is
  \<open>-? (0 | [1-9][0-9]*) (. [0-9]+)? ([eE] [+-]? [0-9]+)?\<close>; a later member of an object
  replaces an earlier one of the same name. \<open>None\<close> is the \<open>SyntaxError\<close>.
  The text is cut into tokens first, then the tokens are read by a stack machine.
\<close>

datatype token =
    TLBrace | TRBrace | TLBracket | TRBracket | TColon | TComma
  | TString jsstring | TNumber rat | TTrue | TFalse | TNull

definition is_json_ws :: "nat \<Rightarrow> bool" where
  "is_json_ws c = (c = 9 \<or> c = 10 \<or> c = 13 \<or> c = 32)"

definition hexval :: "nat \<Rightarrow> nat option" where
  "hexval c =
     (if 48 \<le> c \<and> c \<le> 57 then Some (c - 48)
      else if 97 \<le> c \<and> c \<le> 102 then Some (c - 87)
      else if 65 \<le> c \<and> c \<le> 70 then Some (c - 55)
      else None)"

definition unescape :: "nat \<Rightarrow> nat option" where
  "unescape e =
     (if e = DQUOTE then Some DQUOTE
      else if e = BACKSLASH then Some BACKSLASH
      else if e = 47 then Some 47
      else if e = 98 then Some 8
      else if e = 102 then Some 12
      else if e = 110 then Some 10
      else if e = 114 then Some 13
      else if e = 116 then Some 9
      else None)"

definition hex4 :: "nat \<Rightarrow> nat \<Rightarrow> nat \<Rightarrow> nat \<Rightarrow> nat option" where
  "hex4 h1 h2 h3 h4 =
     (case (hexval h1, hexval h2, hexval h3, hexval h4) of
        (Some a, Some b, Some c, Some d) \<Rightarrow> Some (((a * 16 + b) * 16 + c) * 16 + d)
      | _ \<Rightarrow> None)"

text \<open>
  The body of a string literal, from the unit after the opening quote: the decoded string
  and the number of units read, the closing quote included. \<open>lex_escape\<close> reads what
  follows a backslash, \<open>lex_unicode\<close> the four hexadecimal digits that follow \<open>\u\<close>.
\<close>

definition consumed :: "nat \<Rightarrow> nat \<Rightarrow> (jsstring \<times> nat) option \<Rightarrow> (jsstring \<times> nat) option" where
  "consumed u n r = (case r of None \<Rightarrow> None | Some (s, k) \<Rightarrow> Some (u # s, n + k))"

definition skipped :: "nat \<Rightarrow> (jsstring \<times> nat) option \<Rightarrow> (jsstring \<times> nat) option" where
  "skipped n r = (case r of None \<Rightarrow> None | Some (s, k) \<Rightarrow> Some (s, n + k))"

fun lex_string :: "jsstring \<Rightarrow> (jsstring \<times> nat) option"
  and lex_escape :: "jsstring \<Rightarrow> (jsstring \<times> nat) option"
  and lex_unicode :: "jsstring \<Rightarrow> (jsstring \<times> nat) option" where
  "lex_string [] = None"
| "lex_string (c # cs) =
     (if c = DQUOTE then Some ([], 1)
      else if c = BACKSLASH then skipped 1 (lex_escape cs)
      else if c < 32 then None
      else consumed c 1 (lex_string cs))"
| "lex_escape [] = None"
| "lex_escape (e # cs) =
     (if e = 117 then skipped 1 (lex_unicode cs)
      else (case unescape e of
              None \<Rightarrow> None
            | Some u \<Rightarrow> consumed u 1 (lex_string cs)))"
| "lex_unicode (h1 # h2 # h3 # h4 # cs) =
     (case hex4 h1 h2 h3 h4 of
        None \<Rightarrow> None
      | Some u \<Rightarrow> consumed u 4 (lex_string cs))"
| "lex_unicode _ = None"

text \<open>
  A number literal, from its first unit: its value and the number of units read. A digit
  after a leading zero, a point or an exponent mark without digits have no continuation in
  the grammar, so the text is refused there.
\<close>

definition pow10 :: "int \<Rightarrow> rat" where
  "pow10 e = (if 0 \<le> e then 10 ^ nat e else 1 / 10 ^ nat (- e))"

text \<open>An optional minus sign: whether it is there, and the rest.\<close>

definition lex_minus :: "jsstring \<Rightarrow> bool \<times> jsstring" where
  "lex_minus cs = (if cs \<noteq> [] \<and> hd cs = 45 then (True, tl cs) else (False, cs))"

text \<open>The fraction: its digits (none when there is no point), and the rest.\<close>

definition lex_frac :: "jsstring \<Rightarrow> (jsstring \<times> jsstring) option" where
  "lex_frac r =
     (if r \<noteq> [] \<and> hd r = 46 then
        (if takeWhile is_digit (tl r) = [] then None
         else Some (takeWhile is_digit (tl r), dropWhile is_digit (tl r)))
      else Some ([], r))"

text \<open>The exponent: its value (zero when there is no exponent mark), and the rest.\<close>

definition lex_exp :: "jsstring \<Rightarrow> (int \<times> jsstring) option" where
  "lex_exp r =
     (if r \<noteq> [] \<and> (hd r = 101 \<or> hd r = 69) then
        (let r' = tl r;
             neg = (r' \<noteq> [] \<and> hd r' = 45);
             r'' = (if r' \<noteq> [] \<and> (hd r' = 45 \<or> hd r' = 43) then tl r' else r');
             es = takeWhile is_digit r''
         in if es = [] then None
            else Some (if neg then - int (digits_value es) else int (digits_value es),
                       dropWhile is_digit r''))
      else Some (0, r))"

definition lex_number :: "jsstring \<Rightarrow> (rat \<times> nat) option" where
  "lex_number cs =
     (case lex_minus cs of
        (neg, r0) \<Rightarrow>
          (let ds = takeWhile is_digit r0 in
           if ds = [] \<or> (hd ds = 48 \<and> length ds > 1) then None
           else
             (case lex_frac (dropWhile is_digit r0) of
                None \<Rightarrow> None
              | Some (fs, r2) \<Rightarrow>
                  (case lex_exp r2 of
                     None \<Rightarrow> None
                   | Some (e, r5) \<Rightarrow>
                       (let magnitude =
                              (of_nat (digits_value ds) +
                               of_nat (digits_value fs) / 10 ^ length fs) * pow10 e
                        in Some (if neg then - magnitude else magnitude,
                                 length cs - length r5))))))"

definition emit :: "token \<Rightarrow> token list option \<Rightarrow> token list option" where
  "emit t r = (case r of None \<Rightarrow> None | Some ts \<Rightarrow> Some (t # ts))"

fun lex :: "jsstring \<Rightarrow> token list option" where
  "lex [] = Some []"
| "lex (c # cs) =
     (if is_json_ws c then lex cs
      else if c = LBRACE then emit TLBrace (lex cs)
      else if c = RBRACE then emit TRBrace (lex cs)
      else if c = 91 then emit TLBracket (lex cs)
      else if c = 93 then emit TRBracket (lex cs)
      else if c = 58 then emit TColon (lex cs)
      else if c = 44 then emit TComma (lex cs)
      else if c = DQUOTE then
        (case lex_string cs of
           None \<Rightarrow> None
         | Some (s, k) \<Rightarrow> emit (TString s) (lex (drop k cs)))
      else if c = 45 \<or> is_digit c then
        (case lex_number (c # cs) of
           None \<Rightarrow> None
         | Some (v, k) \<Rightarrow> emit (TNumber v) (lex (drop (k - 1) cs)))
      else if prefix (str ''true'') (c # cs) then emit TTrue (lex (drop 3 cs))
      else if prefix (str ''false'') (c # cs) then emit TFalse (lex (drop 4 cs))
      else if prefix (str ''null'') (c # cs) then emit TNull (lex (drop 3 cs))
      else None)"

text \<open>
  The stack machine. A frame is a container being read: an array with its elements so far,
  an object with its members so far, or an object with its members so far and the name of
  the member whose value is being read.
\<close>

datatype frame = FArr "js list" | FObj props | FKey props jsstring

datatype expect = Value | ValueOrClose | KeyOrClose | Key | Colon | CommaOrClose

datatype pstate = Reading expect "frame list" | Done js

fun push_value :: "js \<Rightarrow> frame list \<Rightarrow> pstate option" where
  "push_value v [] = Some (Done v)"
| "push_value v (FArr vs # st) = Some (Reading CommaOrClose (FArr (vs @ [v]) # st))"
| "push_value v (FKey ps k # st) = Some (Reading CommaOrClose (FObj (set_prop k v ps) # st))"
| "push_value v (FObj ps # st) = None"

fun read_value :: "token \<Rightarrow> frame list \<Rightarrow> pstate option" where
  "read_value (TString s) st = push_value (JStr s) st"
| "read_value (TNumber n) st = push_value (JNum n) st"
| "read_value TTrue st = push_value (JBool True) st"
| "read_value TFalse st = push_value (JBool False) st"
| "read_value TNull st = push_value JNull st"
| "read_value TLBracket st = Some (Reading ValueOrClose (FArr [] # st))"
| "read_value TLBrace st = Some (Reading KeyOrClose (FObj [] # st))"
| "read_value _ st = None"

fun value_or_close :: "token \<Rightarrow> frame list \<Rightarrow> pstate option" where
  "value_or_close TRBracket (FArr vs # st) = push_value (JArr vs) st"
| "value_or_close t st = read_value t st"

fun key_or_close :: "token \<Rightarrow> frame list \<Rightarrow> pstate option" where
  "key_or_close TRBrace (FObj ps # st) = push_value (JObj ps) st"
| "key_or_close (TString k) (FObj ps # st) = Some (Reading Colon (FKey ps k # st))"
| "key_or_close t st = None"

fun key :: "token \<Rightarrow> frame list \<Rightarrow> pstate option" where
  "key (TString k) (FObj ps # st) = Some (Reading Colon (FKey ps k # st))"
| "key t st = None"

fun colon :: "token \<Rightarrow> frame list \<Rightarrow> pstate option" where
  "colon TColon st = Some (Reading Value st)"
| "colon t st = None"

fun comma_or_close :: "token \<Rightarrow> frame list \<Rightarrow> pstate option" where
  "comma_or_close TComma (FArr vs # st) = Some (Reading Value (FArr vs # st))"
| "comma_or_close TRBracket (FArr vs # st) = push_value (JArr vs) st"
| "comma_or_close TComma (FObj ps # st) = Some (Reading Key (FObj ps # st))"
| "comma_or_close TRBrace (FObj ps # st) = push_value (JObj ps) st"
| "comma_or_close t st = None"

fun pstep :: "pstate \<Rightarrow> token \<Rightarrow> pstate option" where
  "pstep (Done v) t = None"
| "pstep (Reading Value st) t = read_value t st"
| "pstep (Reading ValueOrClose st) t = value_or_close t st"
| "pstep (Reading KeyOrClose st) t = key_or_close t st"
| "pstep (Reading Key st) t = key t st"
| "pstep (Reading Colon st) t = colon t st"
| "pstep (Reading CommaOrClose st) t = comma_or_close t st"

fun parse_tokens :: "pstate \<Rightarrow> token list \<Rightarrow> js option" where
  "parse_tokens (Done v) [] = Some v"
| "parse_tokens (Reading e st) [] = None"
| "parse_tokens s (t # ts) =
     (case pstep s t of None \<Rightarrow> None | Some s' \<Rightarrow> parse_tokens s' ts)"

definition JSON_parse :: "jsstring \<Rightarrow> js option" where
  "JSON_parse text = (case lex text of None \<Rightarrow> None | Some ts \<Rightarrow> parse_tokens (Reading Value []) ts)"

section \<open>\<open>generateSuggestions\<close>: from the raw text to the response\<close>

subsection \<open>Fences\<close>

definition fence :: jsstring where
  "fence = [BACKTICK, BACKTICK, BACKTICK]"

text \<open>The text before and the text after the first occurrence of a pattern.\<close>

fun split_first :: "jsstring \<Rightarrow> jsstring \<Rightarrow> (jsstring \<times> jsstring) option" where
  "split_first pat [] = (if pat = [] then Some ([], []) else None)"
| "split_first pat (c # cs) =
     (if prefix pat (c # cs) then Some ([], drop (length pat) (c # cs))
      else (case split_first pat cs of None \<Rightarrow> None | Some (b, a) \<Rightarrow> Some (c # b, a)))"

text \<open>
  \<open>(?:json)?\<close> under the flag \<open>i\<close>: the four letters in either case (no other code unit
  is equal to one of them under the case folding of a non-Unicode regular expression).
\<close>

fun json_tagged :: "jsstring \<Rightarrow> bool" where
  "json_tagged (a # b # c # d # _) =
     ((a = 106 \<or> a = 74) \<and> (b = 115 \<or> b = 83) \<and> (c = 111 \<or> c = 79) \<and> (d = 110 \<or> d = 78))"
| "json_tagged _ = False"

text \<open>
  \<open>rawText.match(/```(?:json)?\s*([\s\S]*?)```/i)\<close>, its first group. The match starts at
  the first triple backtick; the tag and the white space are taken greedily, and the group
  runs up to the next triple backtick. Giving back the tag or white space cannot help a
  failed match, and no later start can succeed when the first one fails, since both would
  need a triple backtick that the first attempt would have found.
\<close>

definition fence_match :: "jsstring \<Rightarrow> jsstring option" where
  "fence_match rawText =
     (case split_first fence rawText of
        None \<Rightarrow> None
      | Some (before, r1) \<Rightarrow>
          (let r2 = (if json_tagged r1 then drop 4 r1 else r1);
               r3 = dropWhile is_space r2
           in (case split_first fence r3 of
                 None \<Rightarrow> None
               | Some (group1, after) \<Rightarrow> Some group1)))"

text \<open>\<open>.replace(/```/g, '')\<close>: every triple backtick, from the left, without overlap.\<close>

fun remove_fences :: "jsstring \<Rightarrow> jsstring" where
  "remove_fences (a # b # c # cs) =
     (if a = BACKTICK \<and> b = BACKTICK \<and> c = BACKTICK then remove_fences cs
      else a # remove_fences (b # c # cs))"
| "remove_fences cs = cs"

definition sanitize :: "jsstring \<Rightarrow> jsstring" where
  "sanitize rawText =
     (let jsonString = (case fence_match rawText of Some group1 \<Rightarrow> group1 | None \<Rightarrow> rawText)
      in escapeNewlinesInStrings (trim (remove_fences jsonString)))"

subsection \<open>The parse ladder\<close>

fun indexOf :: "nat \<Rightarrow> jsstring \<Rightarrow> nat option" where
  "indexOf c [] = None"
| "indexOf c (x # xs) =
     (if x = c then Some 0 else (case indexOf c xs of None \<Rightarrow> None | Some i \<Rightarrow> Some (Suc i)))"

definition lastIndexOf :: "nat \<Rightarrow> jsstring \<Rightarrow> nat option" where
  "lastIndexOf c s =
     (case indexOf c (rev s) of None \<Rightarrow> None | Some i \<Rightarrow> Some (length s - 1 - i))"

text \<open>\<open>s.slice(a, b)\<close> for indices within the string: empty when \<open>b \<le> a\<close>.\<close>

definition slice :: "jsstring \<Rightarrow> nat \<Rightarrow> nat \<Rightarrow> jsstring" where
  "slice s a b = take (b - a) (drop a s)"

definition parse_error_response :: js where
  "parse_error_response =
     JObj [(str ''impact_level'', JStr (str ''none'')),
           (str ''summary'', JStr (str ''Unable to generate suggestions due to parsing error.'')),
           (str ''suggestions'', JArr [])]"

definition no_response_response :: js where
  "no_response_response =
     JObj [(str ''impact_level'', JStr (str ''none'')),
           (str ''summary'', JStr (str ''Unable to generate suggestions - no valid response.'')),
           (str ''suggestions'', JArr [])]"

text \<open>
  The part of \<open>generateSuggestions\<close> between the raw text and the enrichment (the
  specification's Recovery Parser) either leaves a decoded value in \<open>parsed\<close> or returns
  one of the two fixed responses from inside a \<open>catch\<close>, without enrichment.
\<close>

datatype recovered = Parsed js | Fallback js

definition recovery_parser :: "jsstring \<Rightarrow> recovered" where
  "recovery_parser rawText =
     (let sanitized = sanitize rawText in
      case JSON_parse (trim sanitized) of
        Some parsed \<Rightarrow> Parsed parsed
      | None \<Rightarrow>
          (case (indexOf LBRACE sanitized, lastIndexOf RBRACE sanitized) of
             (Some startIdx, Some endIdx) \<Rightarrow>
               (case JSON_parse (slice sanitized startIdx (endIdx + 1)) of
                  Some parsed \<Rightarrow> Parsed parsed
                | None \<Rightarrow> Fallback parse_error_response)
           | _ \<Rightarrow> Fallback no_response_response))"

text \<open>
  \<open>candidate.content?.parts?.map(p => p.text).join('\n').trim() || ''\<close>: a part without
  text joins as the empty string.
\<close>

definition raw_text :: "candidate \<Rightarrow> jsstring" where
  "raw_text c =
     (case c of
        None \<Rightarrow> []
      | Some parts \<Rightarrow> trim (join [LF] (map (\<lambda>p. case p of None \<Rightarrow> [] | Some t \<Rightarrow> t) parts)))"

text \<open>The text of one candidate to the response: the ladder, then the enrichment.\<close>

definition suggestions_of_text :: "jsstring \<Rightarrow> QueryResult list \<Rightarrow> error + js" where
  "suggestions_of_text rawText docsContext =
     (case recovery_parser rawText of
        Fallback r \<Rightarrow> Inr r
      | Parsed parsed \<Rightarrow> enrich docsContext parsed)"

text \<open>
  \<open>generateSuggestions\<close>, given the outcome of its call to Gemini (the candidates of the
  response, when it has any).
\<close>

definition generateSuggestions ::
  "(error + candidate list option) \<Rightarrow> QueryResult list \<Rightarrow> error + js" where
  "generateSuggestions result docsContext =
     (case result of
        Inl e \<Rightarrow> Inl e
      | Inr None \<Rightarrow> Inl (Error (str ''No response from Gemini''))
      | Inr (Some []) \<Rightarrow> Inl (Error (str ''No response from Gemini''))
      | Inr (Some (candidate # _)) \<Rightarrow> suggestions_of_text (raw_text candidate) docsContext)"

subsection \<open>\<open>postComment\<close> in a run\<close>

text \<open>
  Modelled from the spec: \<open>postComment\<close> lists the comments of the pull request, decides,
  and issues its one write; a failure of the listing or of the write is raised to the
  caller. The result is the list of the write calls issued and the error raised, if any.
\<close>

definition postComment ::
  "(error + ExistingComment list) \<Rightarrow> (write_call \<Rightarrow> error option) \<Rightarrow> jsstring \<Rightarrow> int \<Rightarrow> jsstring
     \<Rightarrow> write_call list \<times> error option" where
  "postComment listed write marker issue new_body =
     (case listed of
        Inl e \<Rightarrow> ([], Some e)
      | Inr comments \<Rightarrow>
          (let call = upsert_write (upsert_state marker comments) issue new_body
           in ([call], write call)))"

subsection \<open>\<open>run\<close>\<close>

definition bind_err :: "error + 'a \<Rightarrow> ('a \<Rightarrow> error + 'b) \<Rightarrow> error + 'b" where
  "bind_err m f = (case m of Inl e \<Rightarrow> Inl e | Inr x \<Rightarrow> f x)"

record inputs =
  pineconeApiKey :: jsstring
  pineconeIndex :: jsstring
  geminiApiKey :: jsstring
  geminiModel :: jsstring
  githubToken :: jsstring
  topK :: "int option"
  promptInstruction :: jsstring
  prNumber :: int
  owner :: jsstring
  repoName :: "jsstring option"

definition input_of :: "world \<Rightarrow> string \<Rightarrow> bool \<Rightarrow> error + jsstring" where
  "input_of w name required = getInput (core_getInput w) (env w) (str name) required"

text \<open>An input that is not required: \<open>getInput\<close> does not raise for it.\<close>

definition optional_input :: "world \<Rightarrow> string \<Rightarrow> jsstring" where
  "optional_input w name = (case input_of w name False of Inl e \<Rightarrow> [] | Inr v \<Rightarrow> v)"

text \<open>
  The first lines of \<open>run\<close>, up to the destructuring of \<open>repo.split('/')\<close>.
  \<open>!prNumber\<close> holds for \<open>NaN\<close> and for zero. \<open>split\<close> never returns an empty
  array (lemma \<open>split_on_nonempty\<close>), so the branch for it is never taken.
\<close>

definition resolve_inputs :: "world \<Rightarrow> error + inputs" where
  "resolve_inputs w =
     bind_err (input_of w ''pinecone_api_key'' True) (\<lambda>pineconeApiKey'.
     bind_err (input_of w ''pinecone_index'' True) (\<lambda>pineconeIndex'.
     bind_err (input_of w ''gemini_api_key'' True) (\<lambda>geminiApiKey'.
     let geminiModel' =
           normalizeModelName (or_else (optional_input w ''gemini_model'') (str ''gemini-2.5-pro''))
     in
     bind_err (input_of w ''github_token'' True) (\<lambda>githubToken'.
     let topK' = parseInt10 (or_else (optional_input w ''top_k'') (str ''5''));
         promptInstruction' = optional_input w ''prompt_instruction'';
         prNumber' =
           parseInt10 (or_else (optional_input w ''pr_number'')
                         (decimal (case payload_pr_number w of None \<Rightarrow> 0 | Some n \<Rightarrow> n)));
         repo = or_else (optional_input w ''repo'')
                  (case payload_repo_full_name w of None \<Rightarrow> [] | Some r \<Rightarrow> r)
     in
       (case prNumber' of
          None \<Rightarrow> Inl (Error (str ''Could not determine PR number or repository''))
        | Some n \<Rightarrow>
            if n = 0 \<or> repo = []
            then Inl (Error (str ''Could not determine PR number or repository''))
            else
              (case split_on 47 repo of
                 [] \<Rightarrow> Inl TypeError
               | owner' # rest \<Rightarrow>
                   Inr \<lparr>pineconeApiKey = pineconeApiKey', pineconeIndex = pineconeIndex',
                        geminiApiKey = geminiApiKey', geminiModel = geminiModel',
                        githubToken = githubToken', topK = topK',
                        promptInstruction = promptInstruction', prNumber = n,
                        owner = owner',
                        repoName = (case rest of [] \<Rightarrow> None | r # _ \<Rightarrow> Some r)\<rparr>))))))"

definition body_text :: "pull_request \<Rightarrow> jsstring" where
  "body_text pr = (case pr_body pr of None \<Rightarrow> [] | Some b \<Rightarrow> b)"

definition patch_text :: "pr_file \<Rightarrow> jsstring" where
  "patch_text f = (case patch f of None \<Rightarrow> [] | Some p \<Rightarrow> p)"

definition get_pr :: "world \<Rightarrow> inputs \<Rightarrow> error + pull_request" where
  "get_pr w i = pulls_get w (githubToken i) (owner i) (repoName i) (prNumber i)"

definition get_files :: "world \<Rightarrow> inputs \<Rightarrow> error + pr_file list" where
  "get_files w i = pulls_listFiles w (githubToken i) (owner i) (repoName i) (prNumber i)"

text \<open>The search text: the focused query, or the raw text when building it raised.\<close>

definition search_text :: "world \<Rightarrow> inputs \<Rightarrow> pull_request \<Rightarrow> pr_file list \<Rightarrow> jsstring" where
  "search_text w i pr files =
     (let baseQuery =
            take 5000
              (join [LF]
                 ([title pr, body_text pr] @
                  take 5 (map (\<lambda>f. filename f @ str '': '' @ patch_text f) files)))
      in case buildSearchQuery w (geminiApiKey i) (geminiModel i) (title pr) (body_text pr) files of
           Inr pineconeQueryText \<Rightarrow> pineconeQueryText
         | Inl err \<Rightarrow> baseQuery)"

definition query_docs :: "world \<Rightarrow> inputs \<Rightarrow> pull_request \<Rightarrow> pr_file list \<Rightarrow> error + QueryResult list" where
  "query_docs w i pr files =
     queryPinecone (embedContent w (geminiApiKey i) (search_text w i pr files))
       (\<lambda>queryEmbedding. index_query w (pineconeApiKey i) (pineconeIndex i) queryEmbedding (topK i))"

definition suggest ::
  "world \<Rightarrow> inputs \<Rightarrow> pull_request \<Rightarrow> pr_file list \<Rightarrow> QueryResult list \<Rightarrow> error + js" where
  "suggest w i pr files docsContext =
     (let diff = join [LF, LF] (map (\<lambda>f. str ''--- '' @ filename f @ [LF] @ patch_text f) files)
      in generateSuggestions
           (suggest_generateContent w (geminiApiKey i) (geminiModel i) (title pr) (body_text pr)
              diff docsContext (promptInstruction i) (SUGGESTIONS_INTRO w))
           docsContext)"

text \<open>Everything \<open>run\<close> does before it formats the comment.\<close>

definition upstream :: "world \<Rightarrow> error + inputs \<times> js" where
  "upstream w =
     bind_err (resolve_inputs w) (\<lambda>i.
     bind_err (get_pr w i) (\<lambda>pr.
     bind_err (get_files w i) (\<lambda>files.
     bind_err (query_docs w i pr files) (\<lambda>docsContext.
     bind_err (suggest w i pr files docsContext) (\<lambda>response.
     Inr (i, response))))))"

record run_result =
  writes :: "write_call list"
  failure :: "error option"
  outputs :: "(js \<times> js) option"

text \<open>\<open>response.suggestions.length\<close> and \<open>response.impact_level\<close>, as \<open>setOutput\<close> gets them.\<close>

definition output_values :: "js \<Rightarrow> js \<times> js" where
  "output_values response =
     (case response of
        JObj ps \<Rightarrow>
          ((case get_prop ps (str ''suggestions'') of
              JArr ss \<Rightarrow> JNum (of_nat (length ss))
            | _ \<Rightarrow> JUndefined),
           get_prop ps (str ''impact_level''))
      | _ \<Rightarrow> (JUndefined, JUndefined))"

text \<open>
  \<open>run\<close>: the whole body is inside one \<open>try\<close>; the \<open>catch\<close> reports the failure and
  posts nothing. The comment is posted only after every earlier step has returned, and
  not at all in a dry run.
\<close>

definition run :: "world \<Rightarrow> run_result" where
  "run w =
     (case bind_err (upstream w) (\<lambda>(i, response).
             bind_err (formatComment w response) (\<lambda>comment. Inr (i, response, comment))) of
        Inl e \<Rightarrow> \<lparr>writes = [], failure = Some e, outputs = None\<rparr>
      | Inr (i, response, comment) \<Rightarrow>
          if env w (str ''DRY_RUN'') = Some (str ''true'')
          then \<lparr>writes = [], failure = None, outputs = Some (output_values response)\<rparr>
          else
            (case postComment
                    (listComments w (githubToken i) (owner i) (repoName i) (prNumber i))
                    (write_comment w (githubToken i) (owner i) (repoName i))
                    (bot_marker w) (prNumber i) comment of
               (calls, Some e) \<Rightarrow> \<lparr>writes = calls, failure = Some e, outputs = None\<rparr>
             | (calls, None) \<Rightarrow>
                 \<lparr>writes = calls, failure = None, outputs = Some (output_values response)\<rparr>))"

subsection \<open>An example world\<close>

definition example_world :: world where
  "example_world =
     \<lparr>core_getInput =
        (\<lambda>name. if name = str ''pinecone_api_key'' then str ''pk''
                else if name = str ''pinecone_index'' then str ''docs''
                else if name = str ''gemini_api_key'' then str ''gk''
                else if name = str ''github_token'' then str ''t''
                else if name = str ''pr_number'' then str ''7''
                else if name = str ''repo'' then str ''owner/repo''
                else []),
      env = (\<lambda>name. None),
      payload_pr_number = None,
      payload_repo_full_name = None,
      pulls_get = (\<lambda>token ownr repo n. Inr \<lparr>title = str ''Add guide'', pr_body = None\<rparr>),
      pulls_listFiles = (\<lambda>token ownr repo n. Inr []),
      search_generateContent = (\<lambda>key model prompt. Inl (Error (str ''unavailable''))),
      embedContent = (\<lambda>key query. Inr (Some [[1 / 10]])),
      index_query = (\<lambda>key index v k. Inr (Some [])),
      suggest_generateContent =
        (\<lambda>key model t b diff docs instruction intro.
           Inr (Some [Some [Some (str ''{\"impact_level\":\"none\",\"summary\":\"ok\",\"suggestions\":[]}'')]])),
      SUGGESTIONS_INTRO = [],
      formatComment = (\<lambda>response. Inr (str ''Documentation Update Suggestions: none'')),
      bot_marker = str ''Documentation Update Suggestions'',
      listComments = (\<lambda>token ownr repo n. Inr [\<lparr>comment_id = 42, body = str ''Documentation Update Suggestions''\<rparr>]),
      write_comment = (\<lambda>token ownr repo call. None)\<rparr>"

definition example_inputs :: inputs where
  "example_inputs =
     \<lparr>pineconeApiKey = str ''pk'', pineconeIndex = str ''docs'', geminiApiKey = str ''gk'',
      geminiModel = str ''models/gemini-2.5-pro'', githubToken = str ''t'', topK = Some 5,
      promptInstruction = [], prNumber = 7, owner = str ''owner'', repoName = Some (str ''repo'')\<rparr>"

definition empty_response_text :: jsstring where
  "empty_response_text = str ''{\"impact_level\":\"none\",\"summary\":\"ok\",\"suggestions\":[]}''"

definition empty_response :: js where
  "empty_response =
     JObj [(str ''impact_level'', JStr (str ''none'')), (str ''summary'', JStr (str ''ok'')),
           (str ''suggestions'', JArr [])]"

text \<open>The same response written on two lines.\<close>

definition two_line_text :: jsstring where
  "two_line_text =
     str ''{\"impact_level\":\"none\",'' @ [LF] @ str ''\"summary\":\"ok\",\"suggestions\":[]}''"

subsection \<open>Auxiliary notions for the proofs about numbers\<close>

text \<open>The code units a number literal is made of, and the rest left after reading some.\<close>

definition num_char :: "nat \<Rightarrow> bool" where
  "num_char c = (is_digit c \<or> c = 45 \<or> c = 43 \<or> c = 46 \<or> c = 101 \<or> c = 69)"

definition num_rest :: "jsstring \<Rightarrow> jsstring \<Rightarrow> bool" where
  "num_rest r cs = (\<exists>p. cs = p @ r \<and> list_all num_char p)"

subsection \<open>A response whose summary contains a triple backtick\<close>

definition backticks_text :: jsstring where
  "backticks_text =
     str ''{\"impact_level\":\"low\",\"summary\":\"a'' @ fence @ str ''b\",\"suggestions\":[]}''"

definition backticks_response :: js where
  "backticks_response =
     JObj [(str ''impact_level'', JStr (str ''low'')),
           (str ''summary'', JStr (str ''a'' @ fence @ str ''b'')),
           (str ''suggestions'', JArr [])]"

subsection \<open>The response of the repository's unit test\<close>

text \<open>
  The test \<open>parses and sanitizes LLM output while attaching line numbers\<close> feeds
  \<open>generateSuggestions\<close> a fenced response whose \<open>suggested_text\<close> holds a raw line
  feed, with one context record for \<open>docs/guide.md\<close>.
\<close>

definition unit_test_json :: jsstring where
  "unit_test_json =
     join [LF]
       [str ''{'',
        str ''  \"impact_level\": \"low\",'',
        str ''  \"summary\": \"Update intro\",'',
        str ''  \"suggestions\": ['',
        str ''    {'',
        str ''      \"target_file\": \"docs/guide.md\",'',
        str ''      \"target_section\": \"Intro\",'',
        str ''      \"type\": \"update\",'',
        str ''      \"rationale\": \"Keep docs in sync\",'',
        str ''      \"suggested_text\": \"First line'',
        str ''Second line\",'',
        str ''      \"severity\": \"info\"'',
        str ''    }'',
        str ''  ]'',
        str ''}'']"

definition unit_test_text :: jsstring where
  "unit_test_text = fence @ str ''json'' @ [LF] @ unit_test_json @ [LF] @ fence"

definition unit_test_context :: "QueryResult list" where
  "unit_test_context =
     [\<lparr>file' = str ''docs/guide.md'', chunkIndex = 0, startLine = 10, endLine = 20,
       text' = str ''Guide section'', score = 9 / 10\<rparr>]"

text \<open>The text after the fences are stripped and the line feed is escaped.\<close>

definition unit_test_sanitized :: jsstring where
  "unit_test_sanitized =
     join [LF]
       [str ''{'',
        str ''  \"impact_level\": \"low\",'',
        str ''  \"summary\": \"Update intro\",'',
        str ''  \"suggestions\": ['',
        str ''    {'',
        str ''      \"target_file\": \"docs/guide.md\",'',
        str ''      \"target_section\": \"Intro\",'',
        str ''      \"type\": \"update\",'',
        str ''      \"rationale\": \"Keep docs in sync\",'',
        str ''      \"suggested_text\": \"First line'' @ [BACKSLASH] @ str ''nSecond line\",'',
        str ''      \"severity\": \"info\"'',
        str ''    }'',
        str ''  ]'',
        str ''}'']"

definition unit_test_parsed :: js where
  "unit_test_parsed =
     JObj [(str ''impact_level'', JStr (str ''low'')),
           (str ''summary'', JStr (str ''Update intro'')),
           (str ''suggestions'',
            JArr [JObj [(str ''target_file'', JStr (str ''docs/guide.md'')),
                        (str ''target_section'', JStr (str ''Intro'')),
                        (str ''type'', JStr (str ''update'')),
                        (str ''rationale'', JStr (str ''Keep docs in sync'')),
                        (str ''suggested_text'',
                         JStr (str ''First line'' @ [LF] @ str ''Second line'')),
                        (str ''severity'', JStr (str ''info''))]])]"

text \<open>The value the test expects.\<close>

definition unit_test_result :: js where
  "unit_test_result =
     JObj [(str ''impact_level'', JStr (str ''low'')),
           (str ''summary'', JStr (str ''Update intro'')),
           (str ''suggestions'',
            JArr [JObj [(str ''target_file'', JStr (str ''docs/guide.md'')),
                        (str ''target_section'', JStr (str ''Intro'')),
                        (str ''type'', JStr (str ''update'')),
                        (str ''rationale'', JStr (str ''Keep docs in sync'')),
                        (str ''suggested_text'',
                         JStr (str ''First line'' @ [LF] @ str ''Second line'')),
                        (str ''severity'', JStr (str ''info'')),
                        (str ''start_line'', JNum 10),
                        (str ''end_line'', JNum 20)]])]"

section \<open>Properties of the escaper\<close>

lemma esc_step_scanner:
  assumes "escaped s \<Longrightarrow> inString s"
  shows "scanner_of (esc_step ch s) = fst (scan_step (scanner_of s) ch)"
    and "out (esc_step ch s) = out s @ snd (scan_step (scanner_of s) ch)"
    and "escaped (esc_step ch s) \<Longrightarrow> inString (esc_step ch s)"
  using assms by (auto simp: esc_step_def scanner_of_def split: if_splits)

lemma fold_esc_step_scan:
  assumes "escaped s \<Longrightarrow> inString s"
  shows "out (fold esc_step cs s) = out s @ scan_from (scanner_of s) cs"
  using assms
proof (induction cs arbitrary: s)
  case Nil
  then show ?case by simp
next
  case (Cons c cs)
  have inv: "escaped (esc_step c s) \<Longrightarrow> inString (esc_step c s)"
    using Cons.prems by (rule esc_step_scanner(3))
  have "out (fold esc_step (c # cs) s) = out (fold esc_step cs (esc_step c s))"
    by simp
  also have "\<dots> = out (esc_step c s) @ scan_from (scanner_of (esc_step c s)) cs"
    using inv by (rule Cons.IH)
  also have "\<dots> = out s @ scan_from (scanner_of s) (c # cs)"
    using Cons.prems by (simp add: esc_step_scanner(1,2))
  finally show ?case .
qed

lemma escape_is_scan: "escapeNewlinesInStrings input = scan_from Outside input"
  using fold_esc_step_scan [of esc_init input]
  by (simp add: escapeNewlinesInStrings_def esc_init_def scanner_of_def)

text \<open>
  Claim C5. For every input, the escaper of the source computes exactly what the scanner of
  the specification computes from the state "outside": a newline strictly inside a string
  literal becomes backslash-n, a carriage return inside a literal is dropped, a backslash
  inside a literal is copied together with the unit that follows it, every double quote
  that is not so escaped toggles the state, and every unit outside literals is copied.
\<close>

theorem escaper_refines_scanner:
  "escapeNewlinesInStrings input = scan_from Outside input"
  by (rule escape_is_scan)

section \<open>Properties of the enrichment\<close>

lemma get_set_prop: "get_prop (set_prop k v ps) k' = (if k' = k then v else get_prop ps k')"
  by (induction ps) auto

lemma keys_set_prop_present:
  "k \<in> set (map fst ps) \<Longrightarrow> map fst (set_prop k v ps) = map fst ps"
proof (induction ps)
  case Nil
  then show ?case by simp
next
  case (Cons p ps)
  obtain k' v' where p: "p = (k', v')" by (cases p)
  show ?case
  proof (cases "k' = k")
    case True
    then show ?thesis by (simp add: p)
  next
    case False
    with Cons.prems p have "k \<in> set (map fst ps)" by auto
    then show ?thesis using Cons.IH False by (simp add: p)
  qed
qed

lemma find_doc_object:
  "find_doc ctx (JObj qs) =
     Inr (find (\<lambda>d. JStr (file' d) = get_prop qs (str ''target_file'')) ctx)"
  by (induction ctx) auto

lemma enrich_suggestion_object:
  "enrich_suggestion ctx (JObj qs) =
     Inr (JObj (set_prop (str ''end_line'')
                  (line_of endLine (find (\<lambda>d. JStr (file' d) = get_prop qs (str ''target_file'')) ctx))
                  (set_prop (str ''start_line'')
                     (line_of startLine (find (\<lambda>d. JStr (file' d) = get_prop qs (str ''target_file'')) ctx))
                     qs)))"
  by (simp add: enrich_suggestion_def find_doc_object)

lemma map_err_objects:
  assumes "list_all is_object ss"
  shows "\<exists>ss'. map_err (enrich_suggestion ctx) ss = Inr ss' \<and> length ss' = length ss \<and>
           (\<forall>i<length ss. enrich_suggestion ctx (ss ! i) = Inr (ss' ! i))"
  using assms
proof (induction ss)
  case Nil
  then show ?case by simp
next
  case (Cons s ss)
  then obtain ss' where ss': "map_err (enrich_suggestion ctx) ss = Inr ss'"
      "length ss' = length ss" "\<forall>i<length ss. enrich_suggestion ctx (ss ! i) = Inr (ss' ! i)"
    by auto
  from Cons.prems obtain qs where s: "s = JObj qs" by (cases s) auto
  obtain s' where s': "enrich_suggestion ctx s = Inr s'"
    by (simp add: s enrich_suggestion_object)
  have "\<forall>i<length (s # ss). enrich_suggestion ctx ((s # ss) ! i) = Inr ((s' # ss') ! i)"
    using ss'(3) s' by (auto simp: nth_Cons split: nat.splits)
  then show ?case using ss' s' by auto
qed

lemma wt_Suggestion_object: "wt_Suggestion s \<Longrightarrow> is_object s"
  by (cases s) auto

lemma wt_suggestions_objects: "list_all wt_Suggestion ss \<Longrightarrow> list_all is_object ss"
  by (induction ss) (auto dest: wt_Suggestion_object)

lemma enrich_shape:
  assumes "get_prop ps (str ''suggestions'') = JArr ss" and "list_all is_object ss"
  shows "\<exists>ss'. enrich ctx (JObj ps) = Inr (JObj (set_prop (str ''suggestions'') (JArr ss') ps)) \<and>
           length ss' = length ss \<and>
           (\<forall>i<length ss. enrich_suggestion ctx (ss ! i) = Inr (ss' ! i))"
  using map_err_objects [OF assms(2), of ctx] assms(1)
  by (auto simp: enrich_def)


lemma get_prop_defined_key: "get_prop ps k \<noteq> JUndefined \<Longrightarrow> k \<in> set (map fst ps)"
  by (induction ps) (auto split: if_splits)

lemma find_list_ex: "(find P xs \<noteq> None) = list_ex P xs"
  by (induction xs) auto

lemma enrich_suggestion_fields:
  assumes "enrich_suggestion ctx (JObj qs) = Inr s'"
  shows "\<exists>qs'. s' = JObj qs' \<and>
           (case find (\<lambda>d. JStr (file' d) = get_prop qs (str ''target_file'')) ctx of
              None \<Rightarrow> get_prop qs' (str ''start_line'') = JUndefined \<and>
                      get_prop qs' (str ''end_line'') = JUndefined
            | Some d \<Rightarrow> get_prop qs' (str ''start_line'') = JNum (startLine d) \<and>
                        get_prop qs' (str ''end_line'') = JNum (endLine d)) \<and>
           (get_prop qs' (str ''start_line'') \<noteq> JUndefined) =
              list_ex (\<lambda>d. JStr (file' d) = get_prop qs (str ''target_file'')) ctx \<and>
           (get_prop qs' (str ''end_line'') \<noteq> JUndefined) =
              list_ex (\<lambda>d. JStr (file' d) = get_prop qs (str ''target_file'')) ctx \<and>
           (\<forall>k. k \<noteq> str ''start_line'' \<and> k \<noteq> str ''end_line'' \<longrightarrow>
                get_prop qs' k = get_prop qs k)"
  using assms find_list_ex [of "\<lambda>d. JStr (file' d) = get_prop qs (str ''target_file'')" ctx]
  by (auto simp: enrich_suggestion_object get_set_prop line_of_def split: option.splits)

text \<open>
  Claim C3. For every well-typed response and every context, enrichment returns an object
  with the same keys in the same order; every property but \<open>suggestions\<close> is unchanged
  (so \<open>impact_level\<close>, \<open>summary\<close> and \<open>comment_intro\<close> are); the suggestions keep
  their number and order; the i-th one has \<open>start_line\<close> and \<open>end_line\<close> equal to
  \<open>startLine\<close> and \<open>endLine\<close> of the first record whose \<open>file\<close> is the very string
  \<open>target_file\<close>, and \<open>undefined\<close> when no record matches; they are defined exactly when
  a record matches; every other property of the suggestion is unchanged.
\<close>

theorem enrichment_first_match:
  assumes "wt_LLMResponse parsed"
  shows "\<exists>ps ss ps' ss'.
           parsed = JObj ps \<and> get_prop ps (str ''suggestions'') = JArr ss \<and>
           enrich ctx parsed = Inr (JObj ps') \<and>
           map fst ps' = map fst ps \<and>
           (\<forall>k. k \<noteq> str ''suggestions'' \<longrightarrow> get_prop ps' k = get_prop ps k) \<and>
           get_prop ps' (str ''suggestions'') = JArr ss' \<and>
           length ss' = length ss \<and>
           (\<forall>i<length ss. \<exists>qs qs'.
              ss ! i = JObj qs \<and> ss' ! i = JObj qs' \<and>
              (case find (\<lambda>d. JStr (file' d) = get_prop qs (str ''target_file'')) ctx of
                 None \<Rightarrow> get_prop qs' (str ''start_line'') = JUndefined \<and>
                         get_prop qs' (str ''end_line'') = JUndefined
               | Some d \<Rightarrow> get_prop qs' (str ''start_line'') = JNum (startLine d) \<and>
                           get_prop qs' (str ''end_line'') = JNum (endLine d)) \<and>
              (get_prop qs' (str ''start_line'') \<noteq> JUndefined) =
                 list_ex (\<lambda>d. JStr (file' d) = get_prop qs (str ''target_file'')) ctx \<and>
              (get_prop qs' (str ''end_line'') \<noteq> JUndefined) =
                 list_ex (\<lambda>d. JStr (file' d) = get_prop qs (str ''target_file'')) ctx \<and>
              (\<forall>k. k \<noteq> str ''start_line'' \<and> k \<noteq> str ''end_line'' \<longrightarrow>
                   get_prop qs' k = get_prop qs k))"
proof -
  from assms obtain ps where ps: "parsed = JObj ps" by (cases parsed) auto
  with assms obtain ss where ss: "get_prop ps (str ''suggestions'') = JArr ss"
    and wts: "list_all wt_Suggestion ss"
    by (cases "get_prop ps (str ''suggestions'')") auto
  have objs: "list_all is_object ss" using wts by (rule wt_suggestions_objects)
  from enrich_shape [OF ss objs, of ctx] obtain ss' where
    e: "enrich ctx (JObj ps) = Inr (JObj (set_prop (str ''suggestions'') (JArr ss') ps))"
    and len: "length ss' = length ss"
    and each: "\<forall>i<length ss. enrich_suggestion ctx (ss ! i) = Inr (ss' ! i)"
    by blast
  let ?ps' = "set_prop (str ''suggestions'') (JArr ss') ps"
  have key: "str ''suggestions'' \<in> set (map fst ps)"
    using ss by (intro get_prop_defined_key) simp
  have keys: "map fst ?ps' = map fst ps"
    using key by (rule keys_set_prop_present)
  have others: "\<forall>k. k \<noteq> str ''suggestions'' \<longrightarrow> get_prop ?ps' k = get_prop ps k"
    by (simp add: get_set_prop)
  have sugg: "get_prop ?ps' (str ''suggestions'') = JArr ss'"
    by (simp add: get_set_prop)
  have per: "\<exists>qs qs'.
              ss ! i = JObj qs \<and> ss' ! i = JObj qs' \<and>
              (case find (\<lambda>d. JStr (file' d) = get_prop qs (str ''target_file'')) ctx of
                 None \<Rightarrow> get_prop qs' (str ''start_line'') = JUndefined \<and>
                         get_prop qs' (str ''end_line'') = JUndefined
               | Some d \<Rightarrow> get_prop qs' (str ''start_line'') = JNum (startLine d) \<and>
                           get_prop qs' (str ''end_line'') = JNum (endLine d)) \<and>
              (get_prop qs' (str ''start_line'') \<noteq> JUndefined) =
                 list_ex (\<lambda>d. JStr (file' d) = get_prop qs (str ''target_file'')) ctx \<and>
              (get_prop qs' (str ''end_line'') \<noteq> JUndefined) =
                 list_ex (\<lambda>d. JStr (file' d) = get_prop qs (str ''target_file'')) ctx \<and>
              (\<forall>k. k \<noteq> str ''start_line'' \<and> k \<noteq> str ''end_line'' \<longrightarrow>
                   get_prop qs' k = get_prop qs k)" if i: "i < length ss" for i
  proof -
    from objs i have "is_object (ss ! i)" by (simp add: list_all_length)
    then obtain qs where qs: "ss ! i = JObj qs" by (cases "ss ! i") auto
    from each i qs have "enrich_suggestion ctx (JObj qs) = Inr (ss' ! i)" by auto
    from enrich_suggestion_fields [OF this] qs show ?thesis by blast
  qed
  show ?thesis
    using ps ss e keys others sugg len per by blast
qed

lemma example_response_wt: "wt_LLMResponse example_response"
  by (simp add: example_response_def example_suggestion_def one_of_def)

theorem enrichment_first_match_witness:
  "wt_LLMResponse example_response \<and>
   (\<exists>ps'. enrich example_context example_response = Inr (JObj ps') \<and>
          get_prop ps' (str ''suggestions'') =
            JArr [JObj (spread (example_suggestion ''docs/a.md'') @
                        [(str ''start_line'', JNum 10), (str ''end_line'', JNum 20)]),
                  JObj (spread (example_suggestion ''docs/b.md'') @
                        [(str ''start_line'', JUndefined), (str ''end_line'', JUndefined)])])"
proof -
  from enrichment_first_match [OF example_response_wt, of example_context]
  obtain ps' where "enrich example_context example_response = Inr (JObj ps')" by blast
  moreover have "enrich example_context example_response =
      Inr (JObj [(str ''impact_level'', JStr (str ''low'')),
           (str ''summary'', JStr (str ''Update intro'')),
           (str ''suggestions'',
            JArr [JObj (spread (example_suggestion ''docs/a.md'') @
                        [(str ''start_line'', JNum 10), (str ''end_line'', JNum 20)]),
                  JObj (spread (example_suggestion ''docs/b.md'') @
                        [(str ''start_line'', JUndefined), (str ''end_line'', JUndefined)])])])"
    by (simp add: enrich_def example_response_def example_suggestion_def example_context_def
        enrich_suggestion_def line_of_def)
  ultimately show ?thesis using example_response_wt by auto
qed

section \<open>Properties of \<open>queryPinecone\<close>\<close>

lemma queryPinecone_Inr:
  assumes "queryPinecone embedded query = Inr rs"
  shows "\<exists>v vs ms. embedded = Inr (Some (v # vs)) \<and> query v = Inr ms \<and>
           rs = map format_match (case ms of None \<Rightarrow> [] | Some matches \<Rightarrow> matches)"
  using assms
  by (auto simp: queryPinecone_def split: sum.splits option.splits list.splits)

lemma format_match_absent:
  "format_match \<lparr>metadata = None, match_score = None\<rparr> = unknown_record"
  by (simp add: format_match_def unknown_record_def opt_field_def str_or_def num_or_def)

lemma format_match_fields:
  "file' (format_match m) \<noteq> []"
  "opt_field (metadata m) md_file = None \<Longrightarrow> file' (format_match m) = str ''unknown''"
  "opt_field (metadata m) md_chunkIndex = None \<Longrightarrow> chunkIndex (format_match m) = 0"
  "opt_field (metadata m) md_startLine = None \<Longrightarrow> startLine (format_match m) = 0"
  "opt_field (metadata m) md_endLine = None \<Longrightarrow> endLine (format_match m) = 0"
  "opt_field (metadata m) md_text = None \<Longrightarrow> text' (format_match m) = []"
  "match_score m = None \<Longrightarrow> score (format_match m) = 0"
  by (auto simp: format_match_def str_or_def num_or_def split: option.splits)

text \<open>
  Claim C10. When \<open>queryPinecone\<close> returns, it returns one record per match of the
  response, in order, each the formatted match: its \<open>file\<close> is never empty, and a field
  whose source is absent has its default (\<open>unknown\<close>, 0, 0, 0, the empty text, 0). The
  default path takes part in the lookup of the enrichment as any path does: a suggestion
  whose \<open>target_file\<close> is \<open>unknown\<close> gets its lines exactly when a returned record has
  the file \<open>unknown\<close>.
\<close>

theorem queryPinecone_populates:
  assumes "queryPinecone embedded query = Inr rs"
  shows "\<exists>v vs ms. embedded = Inr (Some (v # vs)) \<and> query v = Inr ms \<and>
           length rs = length (case ms of None \<Rightarrow> [] | Some matches \<Rightarrow> matches) \<and>
           (\<forall>i<length rs. \<exists>m. (case ms of None \<Rightarrow> [] | Some matches \<Rightarrow> matches) ! i = m \<and>
              rs ! i = format_match m \<and>
              file' (rs ! i) \<noteq> [] \<and>
              (opt_field (metadata m) md_file = None \<longrightarrow> file' (rs ! i) = str ''unknown'') \<and>
              (opt_field (metadata m) md_chunkIndex = None \<longrightarrow> chunkIndex (rs ! i) = 0) \<and>
              (opt_field (metadata m) md_startLine = None \<longrightarrow> startLine (rs ! i) = 0) \<and>
              (opt_field (metadata m) md_endLine = None \<longrightarrow> endLine (rs ! i) = 0) \<and>
              (opt_field (metadata m) md_text = None \<longrightarrow> text' (rs ! i) = []) \<and>
              (match_score m = None \<longrightarrow> score (rs ! i) = 0)) \<and>
           (\<forall>qs. get_prop qs (str ''target_file'') = JStr (str ''unknown'') \<longrightarrow>
              (\<exists>qs'. enrich_suggestion rs (JObj qs) = Inr (JObj qs') \<and>
                 (get_prop qs' (str ''start_line'') \<noteq> JUndefined) =
                    list_ex (\<lambda>r. file' r = str ''unknown'') rs \<and>
                 (get_prop qs' (str ''end_line'') \<noteq> JUndefined) =
                    list_ex (\<lambda>r. file' r = str ''unknown'') rs))"
proof -
  from queryPinecone_Inr [OF assms] obtain v vs ms where
    e: "embedded = Inr (Some (v # vs))" and q: "query v = Inr ms" and
    rs: "rs = map format_match (case ms of None \<Rightarrow> [] | Some matches \<Rightarrow> matches)"
    by blast
  let ?ms = "case ms of None \<Rightarrow> [] | Some matches \<Rightarrow> matches"
  have each: "\<forall>i<length rs. rs ! i = format_match (?ms ! i)" using rs by simp
  have lookup: "\<exists>qs'. enrich_suggestion rs (JObj qs) = Inr (JObj qs') \<and>
                 (get_prop qs' (str ''start_line'') \<noteq> JUndefined) =
                    list_ex (\<lambda>r. file' r = str ''unknown'') rs \<and>
                 (get_prop qs' (str ''end_line'') \<noteq> JUndefined) =
                    list_ex (\<lambda>r. file' r = str ''unknown'') rs"
    if tf: "get_prop qs (str ''target_file'') = JStr (str ''unknown'')" for qs
  proof -
    obtain s' where s': "enrich_suggestion rs (JObj qs) = Inr s'"
      by (simp add: enrich_suggestion_object)
    from enrich_suggestion_fields [OF s'] tf show ?thesis
      using s' by auto
  qed
  show ?thesis
    using e q rs each format_match_fields lookup by auto
qed

theorem queryPinecone_populates_witness:
  "queryPinecone (Inr (Some [[1 / 10]]))
       (\<lambda>v. Inr (Some [\<lparr>metadata = None, match_score = None\<rparr>])) = Inr [unknown_record] \<and>
   (\<exists>qs'. enrich_suggestion [unknown_record]
             (JObj [(str ''target_file'', JStr (str ''unknown''))]) = Inr (JObj qs') \<and>
          get_prop qs' (str ''start_line'') \<noteq> JUndefined)"
proof -
  have q: "queryPinecone (Inr (Some [[1 / 10]]))
       (\<lambda>v. Inr (Some [\<lparr>metadata = None, match_score = None\<rparr>])) = Inr [unknown_record]"
    by (simp add: queryPinecone_def format_match_absent)
  have tf: "get_prop [(str ''target_file'', JStr (str ''unknown''))] (str ''target_file'')
              = JStr (str ''unknown'')"
    by simp
  have ex: "list_ex (\<lambda>r. file' r = str ''unknown'') [unknown_record]"
    by (simp add: unknown_record_def)
  from queryPinecone_populates [OF q] tf ex
  have "\<exists>qs'. enrich_suggestion [unknown_record]
             (JObj [(str ''target_file'', JStr (str ''unknown''))]) = Inr (JObj qs') \<and>
          get_prop qs' (str ''start_line'') \<noteq> JUndefined"
    by blast
  with q show ?thesis by blast
qed

section \<open>Properties of the comment upsert\<close>

lemma upsert_state_find:
  "upsert_state marker comments =
     (case find (\<lambda>c. includes_str (body c) marker) comments of
        None \<Rightarrow> NeedsCreate
      | Some c \<Rightarrow> NeedsUpdate (comment_id c))"
  by (induction comments) auto

lemma find_Some_list_ex: "(\<exists>x. find P xs = Some x) = list_ex P xs"
  by (induction xs) auto

text \<open>
  Claim C2. For every list of existing comments, \<open>postComment\<close> issues exactly one write
  call: the update of the first comment whose body contains the marker, with the new body,
  when some comment contains it, and a create otherwise; so the call is an update exactly
  when a comment contains the marker and a create exactly when none does.
\<close>

theorem postComment_upsert:
  "fst (postComment (Inr comments) write marker issue new_body) =
     (case find (\<lambda>c. includes_str (body c) marker) comments of
        Some c \<Rightarrow> [UpdateComment (comment_id c) new_body]
      | None \<Rightarrow> [CreateComment issue new_body]) \<and>
   length (fst (postComment (Inr comments) write marker issue new_body)) = 1 \<and>
   list_all is_update (fst (postComment (Inr comments) write marker issue new_body)) =
     list_ex (\<lambda>c. includes_str (body c) marker) comments \<and>
   list_all is_create (fst (postComment (Inr comments) write marker issue new_body)) =
     (\<not> list_ex (\<lambda>c. includes_str (body c) marker) comments)"
  using find_Some_list_ex [of "\<lambda>c. includes_str (body c) marker" comments]
  by (auto simp: postComment_def upsert_state_find Let_def split: option.splits)

theorem postComment_upsert_witness:
  "fst (postComment
         (Inr [\<lparr>comment_id = 1, body = str ''Another comment''\<rparr>,
               \<lparr>comment_id = 42, body = str ''## Documentation Update Suggestions''\<rparr>,
               \<lparr>comment_id = 43, body = str ''Documentation Update Suggestions again''\<rparr>])
         (\<lambda>c. None) (str ''Documentation Update Suggestions'') 7 (str ''new body''))
     = [UpdateComment 42 (str ''new body'')] \<and>
   fst (postComment (Inr [\<lparr>comment_id = 1, body = str ''Another comment''\<rparr>])
         (\<lambda>c. None) (str ''Documentation Update Suggestions'') 3 (str ''fresh body''))
     = [CreateComment 3 (str ''fresh body'')]"
  using postComment_upsert
          [of "[\<lparr>comment_id = 1, body = str ''Another comment''\<rparr>,
               \<lparr>comment_id = 42, body = str ''## Documentation Update Suggestions''\<rparr>,
               \<lparr>comment_id = 43, body = str ''Documentation Update Suggestions again''\<rparr>]"
              "\<lambda>c. None" "str ''Documentation Update Suggestions''" 7 "str ''new body''"]
        postComment_upsert
          [of "[\<lparr>comment_id = 1, body = str ''Another comment''\<rparr>]"
              "\<lambda>c. None" "str ''Documentation Update Suggestions''" 3 "str ''fresh body''"]
  by simp

section \<open>Properties of \<open>run\<close>\<close>

lemma run_upstream_failure:
  assumes "upstream w = Inl e"
  shows "writes (run w) = [] \<and> failure (run w) = Some e"
  using assms by (simp add: run_def bind_err_def)

text \<open>
  Claim C9. Once the inputs are resolved, if fetching the pull request, listing its files,
  querying Pinecone or generating the suggestions raises, \<open>run\<close> issues no comment write
  and reports that error.
\<close>

theorem no_comment_after_upstream_failure:
  assumes "resolve_inputs w = Inr i"
    and "get_pr w i = Inl e \<or>
         (\<exists>pr. get_pr w i = Inr pr \<and>
            (get_files w i = Inl e \<or>
             (\<exists>files. get_files w i = Inr files \<and>
                (query_docs w i pr files = Inl e \<or>
                 (\<exists>docsContext. query_docs w i pr files = Inr docsContext \<and>
                    suggest w i pr files docsContext = Inl e)))))"
  shows "writes (run w) = [] \<and> failure (run w) = Some e"
proof -
  from assms have "upstream w = Inl e"
    by (auto simp: upstream_def bind_err_def)
  then show ?thesis by (rule run_upstream_failure)
qed


lemma example_world_inputs:
  "resolve_inputs (w\<lparr>core_getInput := core_getInput example_world, env := env example_world,
       payload_pr_number := None, payload_repo_full_name := None\<rparr>) = Inr example_inputs"
  by (simp add: resolve_inputs_def bind_err_def input_of_def optional_input_def getInput_def
      example_world_def example_inputs_def or_else_def normalizeModelName_def parseInt10_def
      is_space_def is_digit_def digits_value_def Let_def)


lemmas json_eval =
  JSON_parse_def is_json_ws_def is_digit_def emit_def consumed_def skipped_def unescape_def hexval_def hex4_def
  lex_number_def lex_minus_def lex_frac_def lex_exp_def digits_value_def pow10_def Let_def

lemmas text_eval =
  sanitize_def fence_match_def fence_def trim_def is_space_def escapeNewlinesInStrings_def
  esc_init_def esc_step_def lastIndexOf_def slice_def

lemma lex_empty_response:
  "JSON_parse empty_response_text = Some empty_response"
  by (simp add: empty_response_text_def empty_response_def json_eval)

lemma sanitize_empty_response: "sanitize empty_response_text = empty_response_text"
  by (simp add: empty_response_text_def text_eval)

lemma trim_empty_response: "trim empty_response_text = empty_response_text"
  by (simp add: empty_response_text_def trim_def is_space_def)

lemma recover_empty_response: "recovery_parser empty_response_text = Parsed empty_response"
  by (simp add: recovery_parser_def sanitize_empty_response trim_empty_response lex_empty_response)

lemma example_world_posts:
  "run example_world =
     \<lparr>writes = [UpdateComment 42 (str ''Documentation Update Suggestions: none'')],
      failure = None, outputs = Some (JNum 0, JStr (str ''none''))\<rparr>"
proof -
  have i: "resolve_inputs example_world = Inr example_inputs"
    using example_world_inputs [of example_world] by (simp add: example_world_def)
  have raw: "raw_text (Some [Some empty_response_text]) = empty_response_text"
    by (simp add: raw_text_def trim_empty_response)
  have s: "suggest example_world example_inputs pr files [] = Inr empty_response" for pr files
    using recover_empty_response raw
    by (simp add: suggest_def example_world_def generateSuggestions_def suggestions_of_text_def
        enrich_def empty_response_def empty_response_text_def)
  have q: "query_docs example_world example_inputs pr files = Inr []" for pr files
    by (simp add: query_docs_def queryPinecone_def example_world_def)
  have p: "get_pr example_world example_inputs = Inr \<lparr>title = str ''Add guide'', pr_body = None\<rparr>"
    by (simp add: get_pr_def example_world_def)
  have f: "get_files example_world example_inputs = Inr []"
    by (simp add: get_files_def example_world_def)
  have u: "upstream example_world = Inr (example_inputs, empty_response)"
    by (simp add: upstream_def bind_err_def i p f q s)
  show ?thesis
    by (simp add: run_def u bind_err_def)
       (simp add: example_world_def example_inputs_def postComment_def output_values_def
          empty_response_def)
qed

theorem no_comment_after_upstream_failure_witness:
  "resolve_inputs (example_world\<lparr>embedContent := \<lambda>key query. Inl (Error (str ''Pinecone is down''))\<rparr>)
     = Inr example_inputs \<and>
   writes (run (example_world\<lparr>embedContent := \<lambda>key query. Inl (Error (str ''Pinecone is down''))\<rparr>)) = [] \<and>
   failure (run (example_world\<lparr>embedContent := \<lambda>key query. Inl (Error (str ''Pinecone is down''))\<rparr>))
     = Some (Error (str ''Pinecone is down''))"
proof -
  let ?w = "example_world\<lparr>embedContent := \<lambda>key query. Inl (Error (str ''Pinecone is down''))\<rparr>"
  have i: "resolve_inputs ?w = Inr example_inputs"
    using example_world_inputs [of ?w] by (simp add: example_world_def)
  have p: "get_pr ?w example_inputs = Inr \<lparr>title = str ''Add guide'', pr_body = None\<rparr>"
    by (simp add: get_pr_def example_world_def)
  have f: "get_files ?w example_inputs = Inr []"
    by (simp add: get_files_def example_world_def)
  have q: "query_docs ?w example_inputs \<lparr>title = str ''Add guide'', pr_body = None\<rparr> []
             = Inl (Error (str ''Pinecone is down''))"
    by (simp add: query_docs_def queryPinecone_def)
  from no_comment_after_upstream_failure [OF i, of "Error (str ''Pinecone is down'')"] p f q i
  show ?thesis by simp
qed

section \<open>The escaper on valid JSON\<close>

lemma scan_outside_no_quote:
  "DQUOTE \<notin> set xs \<Longrightarrow> scan_from Outside (xs @ ys) = xs @ scan_from Outside ys"
  by (induction xs) auto

lemma consumed_Some:
  "consumed u n r = Some (s, k) \<Longrightarrow> \<exists>s' k'. r = Some (s', k') \<and> s = u # s' \<and> k = n + k'"
  by (auto simp: consumed_def split: option.splits)

lemma skipped_Some:
  "skipped n r = Some (s, k) \<Longrightarrow> \<exists>k'. r = Some (s, k') \<and> k = n + k'"
  by (auto simp: skipped_def split: option.splits)

lemma take_drop_4:
  "take (4 + k) (a # b # c # d # xs) = a # b # c # d # take k xs"
  "drop (4 + k) (a # b # c # d # xs) = drop k xs"
  by (simp_all add: numeral_eq_Suc)

lemma hexval_plain:
  "hexval h = Some v \<Longrightarrow> h \<noteq> DQUOTE \<and> h \<noteq> BACKSLASH \<and> h \<noteq> LF \<and> h \<noteq> CR"
  by (auto simp: hexval_def split: if_splits)

lemma hex4_plain:
  assumes "hex4 h1 h2 h3 h4 = Some v"
  shows "scan_from InString (h1 # h2 # h3 # h4 # xs) = h1 # h2 # h3 # h4 # scan_from InString xs"
proof -
  from assms obtain a b c d where
    "hexval h1 = Some a" "hexval h2 = Some b" "hexval h3 = Some c" "hexval h4 = Some d"
    by (auto simp: hex4_def split: option.splits)
  then show ?thesis
    by (auto dest!: hexval_plain)
qed

lemma lex_string_scan:
  "lex_string cs = Some (s, k) \<Longrightarrow>
     k \<le> length cs \<and>
     scan_from InString (cs @ ys) = take k cs @ scan_from Outside (drop k cs @ ys)"
  "lex_escape cs = Some (s, k) \<Longrightarrow>
     k \<le> length cs \<and>
     scan_from InStringEscaped (cs @ ys) = take k cs @ scan_from Outside (drop k cs @ ys)"
  "lex_unicode cs = Some (s, k) \<Longrightarrow>
     k \<le> length cs \<and>
     scan_from InString (cs @ ys) = take k cs @ scan_from Outside (drop k cs @ ys)"
proof (induction cs and cs and cs arbitrary: s k and s k and s k
       rule: lex_string_lex_escape_lex_unicode.induct)
  case 1
  then show ?case by simp
next
  case (2 c cs)
  show ?case
  proof (cases "c = DQUOTE")
    case True
    with "2.prems" show ?thesis by auto
  next
    case nq: False
    show ?thesis
    proof (cases "c = BACKSLASH")
      case bs: True
      with "2.prems" nq obtain k' where r: "lex_escape cs = Some (s, k')" "k = 1 + k'"
        by (auto dest: skipped_Some)
      from "2.IH"(1) [OF nq bs r(1)] show ?thesis
        using bs r(2) by simp
    next
      case nb: False
      from "2.prems" nq nb have ctl: "\<not> c < 32"
        by (auto split: if_splits)
      from "2.prems" nq nb ctl obtain s' k' where r: "lex_string cs = Some (s', k')" "k = 1 + k'"
        by (auto dest: consumed_Some)
      from "2.IH"(2) [OF nq nb ctl r(1)] show ?thesis
        using nq nb ctl r(2) by auto
    qed
  qed
next
  case 3
  then show ?case by simp
next
  case (4 e cs)
  show ?case
  proof (cases "e = 117")
    case u: True
    with "4.prems" obtain k' where r: "lex_unicode cs = Some (s, k')" "k = 1 + k'"
      by (auto dest: skipped_Some)
    from "4.IH"(1) [OF u r(1)] show ?thesis
      using r(2) by simp
  next
    case nu: False
    with "4.prems" obtain v where v: "unescape e = Some v"
      by (auto split: option.splits)
    from "4.prems" nu v obtain s' k' where r: "lex_string cs = Some (s', k')" "k = 1 + k'"
      by (auto dest: consumed_Some)
    from "4.IH"(2) [OF nu v r(1)] show ?thesis
      using r(2) by simp
  qed
next
  case (5 h1 h2 h3 h4 cs)
  from "5.prems" obtain v where v: "hex4 h1 h2 h3 h4 = Some v"
    by (auto split: option.splits)
  from "5.prems" v obtain s' k' where r: "lex_string cs = Some (s', k')" "k = 4 + k'"
    by (auto dest: consumed_Some)
  from "5.IH" [OF v r(1)] show ?case
    using r(2) hex4_plain [OF v] by (simp add: take_drop_4)
qed simp_all

lemma num_rest_refl: "num_rest r r"
  by (auto simp: num_rest_def)

lemma num_rest_trans: "num_rest r' r \<Longrightarrow> num_rest r cs \<Longrightarrow> num_rest r' cs"
  by (auto simp: num_rest_def)

lemma takeWhile_digits_num: "list_all num_char (takeWhile is_digit r)"
  by (induction r) (auto simp: num_char_def)

lemma num_rest_dropWhile: "num_rest (dropWhile is_digit r) r"
proof -
  have "r = takeWhile is_digit r @ dropWhile is_digit r" by simp
  then show ?thesis unfolding num_rest_def using takeWhile_digits_num by blast
qed

lemma num_rest_tl: "r \<noteq> [] \<Longrightarrow> num_char (hd r) \<Longrightarrow> num_rest (tl r) r"
proof -
  assume "r \<noteq> []" "num_char (hd r)"
  then have "r = [hd r] @ tl r \<and> list_all num_char [hd r]" by simp
  then show ?thesis unfolding num_rest_def by blast
qed

lemma num_rest_length: "num_rest r cs \<Longrightarrow> length r \<le> length cs"
  by (auto simp: num_rest_def)

lemma lex_minus_rest: "lex_minus cs = (neg, r0) \<Longrightarrow> num_rest r0 cs"
  by (auto simp: lex_minus_def num_char_def intro: num_rest_refl num_rest_tl split: if_splits)

lemma lex_frac_rest:
  assumes "lex_frac r = Some (fs, r2)"
  shows "num_rest r2 r"
proof (cases "r \<noteq> [] \<and> hd r = 46")
  case True
  with assms have r2: "r2 = dropWhile is_digit (tl r)"
    by (auto simp: lex_frac_def split: if_splits)
  have "num_rest (tl r) r" using True by (intro num_rest_tl) (auto simp: num_char_def)
  with num_rest_dropWhile [of "tl r"] show ?thesis
    unfolding r2 by (rule num_rest_trans)
next
  case False
  with assms show ?thesis by (auto simp: lex_frac_def intro: num_rest_refl)
qed

lemma lex_exp_rest:
  assumes "lex_exp r = Some (e, r5)"
  shows "num_rest r5 r"
proof (cases "r \<noteq> [] \<and> (hd r = 101 \<or> hd r = 69)")
  case True
  define r'' where "r'' = (if tl r \<noteq> [] \<and> (hd (tl r) = 45 \<or> hd (tl r) = 43) then tl (tl r) else tl r)"
  from assms True have r5: "r5 = dropWhile is_digit r''"
    by (auto simp: lex_exp_def Let_def r''_def split: if_splits)
  have a: "num_rest (tl r) r" using True by (intro num_rest_tl) (auto simp: num_char_def)
  have b: "num_rest r'' (tl r)"
    unfolding r''_def by (auto intro: num_rest_refl num_rest_tl simp: num_char_def)
  have "num_rest r'' r" using b a by (rule num_rest_trans)
  with num_rest_dropWhile [of r''] show ?thesis
    unfolding r5 by (rule num_rest_trans)
next
  case False
  with assms show ?thesis by (auto simp: lex_exp_def intro: num_rest_refl)
qed

lemma lex_number_rest:
  assumes "lex_number cs = Some (v, k)"
  shows "\<exists>r. num_rest r cs \<and> length r < length cs \<and> k = length cs - length r"
proof -
  obtain neg r0 where m: "lex_minus cs = (neg, r0)" by (cases "lex_minus cs")
  define ds where "ds = takeWhile is_digit r0"
  from assms m have ds: "ds \<noteq> []"
    by (auto simp: lex_number_def Let_def ds_def split: if_splits)
  from assms m ds obtain fs r2 where f: "lex_frac (dropWhile is_digit r0) = Some (fs, r2)"
    by (auto simp: lex_number_def Let_def ds_def split: if_splits option.splits)
  from assms m ds f obtain e r5 where e: "lex_exp r2 = Some (e, r5)"
    by (auto simp: lex_number_def Let_def ds_def split: if_splits option.splits)
  from assms m ds f e have k: "k = length cs - length r5"
    by (auto simp: lex_number_def Let_def ds_def split: if_splits)
  have s0: "num_rest r0 cs" using m by (rule lex_minus_rest)
  have s1: "num_rest (dropWhile is_digit r0) r0" by (rule num_rest_dropWhile)
  have s2: "num_rest r2 (dropWhile is_digit r0)" using f by (rule lex_frac_rest)
  have s5: "num_rest r5 r2" using e by (rule lex_exp_rest)
  have "length r0 = length ds + length (dropWhile is_digit r0)"
    unfolding ds_def by (metis length_append takeWhile_dropWhile_id)
  with ds have "length (dropWhile is_digit r0) < length r0" by simp
  moreover have "length r0 \<le> length cs" using s0 by (rule num_rest_length)
  moreover have "length r2 \<le> length (dropWhile is_digit r0)" using s2 by (rule num_rest_length)
  moreover have "length r5 \<le> length r2" using s5 by (rule num_rest_length)
  ultimately have "length r5 < length cs" by linarith
  moreover have "num_rest r5 cs"
    using s5 s2 s1 s0 by (blast intro: num_rest_trans)
  ultimately show ?thesis using k by blast
qed

lemma num_char_plain: "num_char c \<Longrightarrow> c \<noteq> DQUOTE"
  by (auto simp: num_char_def is_digit_def)

lemma lex_number_scan:
  assumes "lex_number (c # cs) = Some (v, k)"
  shows "scan_from Outside ((c # cs) @ ys) =
           c # take (k - 1) cs @ scan_from Outside (drop (k - 1) cs @ ys)"
proof -
  from lex_number_rest [OF assms] obtain r where
    r: "num_rest r (c # cs)" and len: "length r < length (c # cs)"
    and k: "k = length (c # cs) - length r"
    by blast
  from r obtain p where p: "c # cs = p @ r" "list_all num_char p"
    unfolding num_rest_def by blast
  from p(1) len have pne: "p \<noteq> []" by auto
  from p(1) k have kp: "k = length p" by (metis add_diff_cancel_right' length_append)
  from pne p(1) obtain p' where p': "p = c # p'" by (cases p) auto
  with p(1) have cs: "cs = p' @ r" by simp
  have tk: "take (k - 1) cs = p'" "drop (k - 1) cs = r"
    using kp p' cs by auto
  have "DQUOTE \<notin> set p"
    using p(2) by (auto simp: list_all_iff dest: num_char_plain)
  then have "scan_from Outside (p @ (r @ ys)) = p @ scan_from Outside (r @ ys)"
    by (rule scan_outside_no_quote)
  then show ?thesis using p' cs tk by simp
qed

lemma emit_Some: "emit t r = Some ts \<Longrightarrow> \<exists>ts'. r = Some ts' \<and> ts = t # ts'"
  by (auto simp: emit_def split: option.splits)

lemma literal_scan:
  assumes "prefix lit (c # cs)" and "DQUOTE \<notin> set lit" and "length lit = Suc n"
  shows "scan_from Outside ((c # cs) @ ys) =
           c # take n cs @ scan_from Outside (drop n cs @ ys)"
proof -
  from assms(1) obtain r where r: "c # cs = lit @ r" by (auto simp: prefix_def)
  with assms(3) obtain l where l: "lit = c # l" by (cases lit) auto
  with r have cs: "cs = l @ r" by simp
  have n: "length l = n" using assms(3) l by simp
  have "scan_from Outside (lit @ (r @ ys)) = lit @ scan_from Outside (r @ ys)"
    using assms(2) by (rule scan_outside_no_quote)
  then show ?thesis using l cs n by simp
qed

lemma lex_scan:
  "lex cs = Some ts \<Longrightarrow> scan_from Outside (cs @ ys) = cs @ scan_from Outside ys"
proof (induction cs arbitrary: ts rule: lex.induct)
  case 1
  then show ?case by simp
next
  case (2 c cs)
  consider
      (ws) "is_json_ws c"
    | (punct) "\<not> is_json_ws c" "c = LBRACE \<or> c = RBRACE \<or> c = 91 \<or> c = 93 \<or> c = 58 \<or> c = 44"
    | (string) "\<not> is_json_ws c" "\<not> (c = LBRACE \<or> c = RBRACE \<or> c = 91 \<or> c = 93 \<or> c = 58 \<or> c = 44)"
        "c = DQUOTE"
    | (number) "\<not> is_json_ws c" "\<not> (c = LBRACE \<or> c = RBRACE \<or> c = 91 \<or> c = 93 \<or> c = 58 \<or> c = 44)"
        "c \<noteq> DQUOTE" "c = 45 \<or> is_digit c"
    | (lit) "\<not> is_json_ws c" "\<not> (c = LBRACE \<or> c = RBRACE \<or> c = 91 \<or> c = 93 \<or> c = 58 \<or> c = 44)"
        "c \<noteq> DQUOTE" "\<not> (c = 45 \<or> is_digit c)"
    by blast
  then show ?case
  proof cases
    case ws
    with "2.prems" have "lex cs = Some ts" by simp
    with "2.IH"(1) ws have "scan_from Outside (cs @ ys) = cs @ scan_from Outside ys" by blast
    moreover have "c \<noteq> DQUOTE" using ws by (auto simp: is_json_ws_def)
    ultimately show ?thesis by simp
  next
    case punct
    with "2.prems" obtain ts' where "lex cs = Some ts'"
      by (auto dest: emit_Some split: if_splits)
    with "2.IH"(2-7) punct have "scan_from Outside (cs @ ys) = cs @ scan_from Outside ys"
      by (metis)
    moreover have "c \<noteq> DQUOTE" using punct by auto
    ultimately show ?thesis by simp
  next
    case string
    with "2.prems" obtain s k where sk: "lex_string cs = Some (s, k)"
      by (auto split: option.splits)
    with "2.prems" string obtain ts' where ts': "lex (drop k cs) = Some ts'"
      by (auto dest: emit_Some)
    have ih: "scan_from Outside (drop k cs @ ys) = drop k cs @ scan_from Outside ys"
      using "2.IH"(8) string sk ts' by (auto simp del: lex.simps)
    from lex_string_scan(1) [OF sk, of ys] ih
    have "scan_from InString (cs @ ys) = take k cs @ drop k cs @ scan_from Outside ys"
      by simp
    then show ?thesis using string by simp
  next
    case number
    with "2.prems" obtain v k where vk: "lex_number (c # cs) = Some (v, k)"
      by (auto split: option.splits)
    with "2.prems" number obtain ts' where ts': "lex (drop (k - 1) cs) = Some ts'"
      by (auto dest: emit_Some)
    have ih: "scan_from Outside (drop (k - 1) cs @ ys) = drop (k - 1) cs @ scan_from Outside ys"
      using "2.IH"(9) number vk ts' by (auto simp del: lex.simps)
    from lex_number_scan [OF vk, of ys] ih show ?thesis by simp
  next
    case lit
    consider (t) "prefix (str ''true'') (c # cs)"
      | (f) "\<not> prefix (str ''true'') (c # cs)" "prefix (str ''false'') (c # cs)"
      | (n) "\<not> prefix (str ''true'') (c # cs)" "\<not> prefix (str ''false'') (c # cs)"
            "prefix (str ''null'') (c # cs)"
      using "2.prems" lit by (auto simp del: prefix_code split: if_splits)
    then show ?thesis
    proof cases
      case t
      with "2.prems" lit obtain ts' where ts': "lex (drop 3 cs) = Some ts'"
        by (auto dest: emit_Some simp del: prefix_code)
      have ih: "scan_from Outside (drop 3 cs @ ys) = drop 3 cs @ scan_from Outside ys"
        using "2.IH"(10) lit t ts' by (auto simp del: lex.simps prefix_code)
      from literal_scan [OF t, of 3 ys] ih show ?thesis by simp
    next
      case f
      with "2.prems" lit obtain ts' where ts': "lex (drop 4 cs) = Some ts'"
        by (auto dest: emit_Some simp del: prefix_code)
      have ih: "scan_from Outside (drop 4 cs @ ys) = drop 4 cs @ scan_from Outside ys"
        using "2.IH"(11) lit f ts' by (auto simp del: lex.simps prefix_code)
      from literal_scan [OF f(2), of 4 ys] ih show ?thesis by simp
    next
      case n
      with "2.prems" lit obtain ts' where ts': "lex (drop 3 cs) = Some ts'"
        by (auto dest: emit_Some simp del: prefix_code)
      have ih: "scan_from Outside (drop 3 cs @ ys) = drop 3 cs @ scan_from Outside ys"
        using "2.IH"(12) lit n ts' by (auto simp del: lex.simps prefix_code)
      from literal_scan [OF n(3), of 3 ys] ih show ?thesis by simp
    qed
  qed
qed

lemma JSON_parse_lex: "JSON_parse t = Some v \<Longrightarrow> \<exists>ts. lex t = Some ts"
  by (auto simp: JSON_parse_def split: option.splits)

lemma escape_valid_json_context:
  assumes "JSON_parse j = Some v" and "DQUOTE \<notin> set p" and "DQUOTE \<notin> set q"
  shows "escapeNewlinesInStrings (p @ j @ q) = p @ j @ q"
proof -
  from JSON_parse_lex [OF assms(1)] obtain ts where ts: "lex j = Some ts" by blast
  have "scan_from Outside (p @ j @ q) = p @ scan_from Outside (j @ q)"
    using assms(2) by (rule scan_outside_no_quote)
  also have "scan_from Outside (j @ q) = j @ scan_from Outside q"
    using ts by (rule lex_scan)
  also have "scan_from Outside q = q"
    using scan_outside_no_quote [OF assms(3), of "[]"] by simp
  finally show ?thesis by (simp add: escape_is_scan)
qed

text \<open>
  Claim C8. On every text that \<open>JSON.parse\<close> accepts (such a text has no raw newline
  inside a string literal), the escaper is the identity, hence idempotent.
\<close>

theorem escaper_identity_on_valid_json:
  assumes "JSON_parse t = Some v"
  shows "escapeNewlinesInStrings t = t \<and>
         escapeNewlinesInStrings (escapeNewlinesInStrings t) = escapeNewlinesInStrings t"
  using escape_valid_json_context [OF assms, of "[]" "[]"] by simp

lemma split_first_None:
  "\<not> includes_str t pat \<Longrightarrow> split_first pat t = None"
  by (induction t) (auto simp del: prefix_code)

lemma remove_fences_none:
  "\<not> includes_str t fence \<Longrightarrow> remove_fences t = t"
  by (induction t rule: remove_fences.induct) (auto simp: fence_def)

lemma fence_match_none: "\<not> includes_str t fence \<Longrightarrow> fence_match t = None"
  by (simp add: fence_match_def split_first_None)

lemma not_space_brace: "\<not> is_space LBRACE" "\<not> is_space RBRACE"
  by (simp_all add: is_space_def)

lemma trim_around:
  assumes "j \<noteq> []" and "\<not> is_space (hd j)" and "\<not> is_space (last j)"
  shows "trim (p @ j @ q) = dropWhile is_space p @ j @ rev (dropWhile is_space (rev q))"
proof -
  have a: "dropWhile is_space (p @ j @ q) = dropWhile is_space p @ j @ q"
    using assms(1,2) by (cases j) (auto simp: dropWhile_append)
  have b: "dropWhile is_space (rev q @ rev j @ rev (dropWhile is_space p))
             = dropWhile is_space (rev q) @ rev j @ rev (dropWhile is_space p)"
    using assms(1,3) by (cases j rule: rev_cases) (auto simp: dropWhile_append)
  show ?thesis by (simp add: trim_def a b)
qed

lemma indexOf_first:
  "c \<notin> set p \<Longrightarrow> indexOf c (p @ c # r) = Some (length p)"
  by (induction p) auto

lemma lastIndexOf_last:
  assumes "c \<notin> set q"
  shows "lastIndexOf c (p @ c # q) = Some (length p)"
proof -
  have "indexOf c (rev q @ c # rev p) = Some (length q)"
    using assms by (intro indexOf_first [where p = "rev q", simplified length_rev]) simp
  then show ?thesis by (simp add: lastIndexOf_def)
qed

lemma slice_middle: "slice (p @ j @ q) (length p) (length p + length j) = j"
  by (simp add: slice_def)

section \<open>Properties of the parse ladder\<close>

lemma indexOf_least:
  "c \<in> set s \<Longrightarrow>
     \<exists>a. indexOf c s = Some a \<and> a < length s \<and> s ! a = c \<and> (\<forall>i<a. s ! i \<noteq> c)"
proof (induction s)
  case Nil
  then show ?case by simp
next
  case (Cons x s)
  show ?case
  proof (cases "x = c")
    case True
    then show ?thesis by simp
  next
    case False
    with Cons obtain a where a: "indexOf c s = Some a" "a < length s" "s ! a = c"
        "\<forall>i<a. s ! i \<noteq> c"
      by auto
    have "\<forall>i<Suc a. (x # s) ! i \<noteq> c"
      using False a(4) by (auto simp: nth_Cons split: nat.splits)
    then show ?thesis using False a by auto
  qed
qed

lemma lastIndexOf_greatest:
  assumes "c \<in> set s"
  shows "\<exists>b. lastIndexOf c s = Some b \<and> b < length s \<and> s ! b = c \<and>
             (\<forall>i. b < i \<and> i < length s \<longrightarrow> s ! i \<noteq> c)"
proof -
  from assms have "c \<in> set (rev s)" by simp
  from indexOf_least [OF this] obtain a where a: "indexOf c (rev s) = Some a"
      "a < length s" "rev s ! a = c" "\<forall>i<a. rev s ! i \<noteq> c"
    by auto
  let ?b = "length s - 1 - a"
  have b: "lastIndexOf c s = Some ?b" by (simp add: lastIndexOf_def a(1))
  have lt: "?b < length s" using a(2) by simp
  have at: "s ! ?b = c" using a(2,3) by (simp add: rev_nth)
  have after: "s ! i \<noteq> c" if "?b < i" "i < length s" for i
  proof -
    let ?k = "length s - 1 - i"
    have "?k < a" using that a(2) by simp
    then have "rev s ! ?k \<noteq> c" using a(4) by blast
    moreover have "rev s ! ?k = s ! i" using that by (simp add: rev_nth)
    ultimately show ?thesis by simp
  qed
  show ?thesis using b lt at after by blast
qed

lemma recovery_parser_retry:
  assumes "JSON_parse (trim (sanitize raw)) = None"
    and "indexOf LBRACE (sanitize raw) = Some a"
    and "lastIndexOf RBRACE (sanitize raw) = Some b"
  shows "recovery_parser raw =
           (case JSON_parse (slice (sanitize raw) a (b + 1)) of
              Some v \<Rightarrow> Parsed v
            | None \<Rightarrow> Fallback parse_error_response)"
  using assms by (simp add: recovery_parser_def Let_def split: option.splits)

lemma scan_from_append:
  "scan_from st (xs @ ys) = scan_from st xs @ scan_from (scan_state st xs) ys"
  by (induction xs arbitrary: st) auto

lemma fold_esc_step_state:
  assumes "escaped s \<Longrightarrow> inString s"
  shows "scanner_of (fold esc_step cs s) = scan_state (scanner_of s) cs"
  using assms
proof (induction cs arbitrary: s)
  case Nil
  then show ?case by simp
next
  case (Cons c cs)
  have inv: "escaped (esc_step c s) \<Longrightarrow> inString (esc_step c s)"
    using Cons.prems by (rule esc_step_scanner(3))
  from Cons.IH [OF inv] Cons.prems show ?case by (simp add: esc_step_scanner(1))
qed

lemma inString_scan_state:
  "inString (fold esc_step p esc_init) = (scan_state Outside p \<noteq> Outside)"
proof -
  have "scanner_of (fold esc_step p esc_init) = scan_state Outside p"
    using fold_esc_step_state [of esc_init p] by (simp add: esc_init_def scanner_of_def)
  then show ?thesis by (auto simp: scanner_of_def split: if_splits)
qed

lemma scan_from_plain: "LF \<notin> set xs \<Longrightarrow> CR \<notin> set xs \<Longrightarrow> scan_from st xs = xs"
proof (induction xs arbitrary: st)
  case Nil
  then show ?case by simp
next
  case (Cons c cs)
  then show ?case by (cases st) auto
qed

lemma scan_from_no_brace:
  "b = LBRACE \<or> b = RBRACE \<Longrightarrow> b \<notin> set xs \<Longrightarrow> b \<notin> set (scan_from st xs)"
proof (induction xs arbitrary: st)
  case Nil
  then show ?case by simp
next
  case (Cons c cs)
  then show ?case by (cases st) auto
qed

lemma scan_state_no_quote:
  "DQUOTE \<notin> set w \<Longrightarrow> scan_state Outside (w @ r) = scan_state Outside r"
  by (induction w) auto

lemma scan_state_dropWhile_spaces:
  "scan_state Outside (dropWhile is_space p) = scan_state Outside p"
proof -
  have "DQUOTE \<notin> set (takeWhile is_space p)"
    by (auto dest: set_takeWhileD simp: is_space_def)
  from scan_state_no_quote [OF this, of "dropWhile is_space p"] show ?thesis by simp
qed

lemma sanitize_prose_around_json:
  assumes "JSON_parse j = Some v" and "hd j = LBRACE" and "last j = RBRACE"
    and "\<not> includes_str (p @ j @ q) fence"
    and "\<not> inString (fold esc_step p esc_init) \<or> (LF \<notin> set j \<and> CR \<notin> set j)"
    and "LBRACE \<notin> set p" and "RBRACE \<notin> set q"
  shows "\<exists>p' q'. sanitize (p @ j @ q) = p' @ j @ q' \<and> LBRACE \<notin> set p' \<and> RBRACE \<notin> set q'"
proof -
  let ?p = "dropWhile is_space p"
  let ?q = "rev (dropWhile is_space (rev q))"
  let ?st = "scan_state Outside ?p"
  from assms(1) have ne: "j \<noteq> []" by (auto simp: JSON_parse_def)
  have t: "trim (p @ j @ q) = ?p @ j @ ?q"
    using ne assms(2,3) by (intro trim_around) (simp_all add: not_space_brace)
  have s: "sanitize (p @ j @ q) = scan_from Outside ?p @ scan_from ?st (j @ ?q)"
    using assms(4)
    by (simp add: sanitize_def fence_match_none remove_fences_none t escape_is_scan
        scan_from_append)
  have "\<exists>st'. scan_from ?st (j @ ?q) = j @ scan_from st' ?q"
  proof (cases "inString (fold esc_step p esc_init)")
    case False
    then have o: "?st = Outside"
      by (simp add: inString_scan_state scan_state_dropWhile_spaces)
    from JSON_parse_lex [OF assms(1)] obtain ts where "lex j = Some ts" by blast
    then have "scan_from Outside (j @ ?q) = j @ scan_from Outside ?q" by (rule lex_scan)
    with o show ?thesis by auto
  next
    case True
    with assms(5) have "scan_from ?st j = j" by (intro scan_from_plain) simp_all
    then show ?thesis by (auto simp: scan_from_append)
  qed
  then obtain st' where m: "scan_from ?st (j @ ?q) = j @ scan_from st' ?q" by blast
  have pL: "LBRACE \<notin> set ?p" using assms(6) set_dropWhileD by fastforce
  have qR: "RBRACE \<notin> set ?q" using assms(7) set_dropWhileD by fastforce
  have "LBRACE \<notin> set (scan_from Outside ?p)" using pL by (intro scan_from_no_brace) simp_all
  moreover have "RBRACE \<notin> set (scan_from st' ?q)" using qR by (intro scan_from_no_brace) simp_all
  ultimately show ?thesis using s m by auto
qed

text \<open>
  Claim C6, amended. When the direct parse of the sanitized text fails and the text has a
  \<open>{\<close> and a \<open>}\<close>, the ladder decodes the slice from the first \<open>{\<close> to the last
  \<open>}\<close>, both included, and returns its value, or the fixed parse-error response when the
  slice does not decode. In particular, when a text that \<open>JSON.parse\<close> accepts, beginning
  with \<open>{\<close> and ending with \<open>}\<close>, stands after prose without \<open>{\<close> and before prose
  without \<open>}\<close>, the escaper is outside a string literal at the end of the preceding
  prose (its double quotes pair up) or else the embedded text holds no line feed and no
  carriage return, the whole text contains no triple backtick, and the direct parse of the
  whole fails, the ladder returns the value of the embedded text.
\<close>

theorem brace_extraction:
  "(JSON_parse (trim (sanitize raw)) = None \<and> LBRACE \<in> set (sanitize raw) \<and>
      RBRACE \<in> set (sanitize raw) \<longrightarrow>
      (\<exists>a b. a < length (sanitize raw) \<and> sanitize raw ! a = LBRACE \<and>
             (\<forall>i<a. sanitize raw ! i \<noteq> LBRACE) \<and>
             b < length (sanitize raw) \<and> sanitize raw ! b = RBRACE \<and>
             (\<forall>i. b < i \<and> i < length (sanitize raw) \<longrightarrow> sanitize raw ! i \<noteq> RBRACE) \<and>
             recovery_parser raw =
               (case JSON_parse (slice (sanitize raw) a (b + 1)) of
                  Some v \<Rightarrow> Parsed v
                | None \<Rightarrow> Fallback parse_error_response))) \<and>
   (JSON_parse j = Some v \<and> hd j = LBRACE \<and> last j = RBRACE \<and>
      LBRACE \<notin> set p \<and> RBRACE \<notin> set q \<and>
      (\<not> inString (fold esc_step p esc_init) \<or> (LF \<notin> set j \<and> CR \<notin> set j)) \<and>
      \<not> includes_str (p @ j @ q) fence \<and>
      JSON_parse (trim (sanitize (p @ j @ q))) = None \<longrightarrow>
      recovery_parser (p @ j @ q) = Parsed v)"
proof (intro conjI impI)
  assume h: "JSON_parse (trim (sanitize raw)) = None \<and> LBRACE \<in> set (sanitize raw) \<and>
      RBRACE \<in> set (sanitize raw)"
  from h indexOf_least [of LBRACE "sanitize raw"] obtain a where
    a: "indexOf LBRACE (sanitize raw) = Some a" "a < length (sanitize raw)"
       "sanitize raw ! a = LBRACE" "\<forall>i<a. sanitize raw ! i \<noteq> LBRACE"
    by blast
  from h lastIndexOf_greatest [of RBRACE "sanitize raw"] obtain b where
    b: "lastIndexOf RBRACE (sanitize raw) = Some b" "b < length (sanitize raw)"
       "sanitize raw ! b = RBRACE"
       "\<forall>i. b < i \<and> i < length (sanitize raw) \<longrightarrow> sanitize raw ! i \<noteq> RBRACE"
    by blast
  from h have "recovery_parser raw =
           (case JSON_parse (slice (sanitize raw) a (b + 1)) of
              Some v \<Rightarrow> Parsed v
            | None \<Rightarrow> Fallback parse_error_response)"
    using a(1) b(1) by (intro recovery_parser_retry) simp_all
  with a b show "\<exists>a b. a < length (sanitize raw) \<and> sanitize raw ! a = LBRACE \<and>
             (\<forall>i<a. sanitize raw ! i \<noteq> LBRACE) \<and>
             b < length (sanitize raw) \<and> sanitize raw ! b = RBRACE \<and>
             (\<forall>i. b < i \<and> i < length (sanitize raw) \<longrightarrow> sanitize raw ! i \<noteq> RBRACE) \<and>
             recovery_parser raw =
               (case JSON_parse (slice (sanitize raw) a (b + 1)) of
                  Some v \<Rightarrow> Parsed v
                | None \<Rightarrow> Fallback parse_error_response)"
    by blast
next
  assume h: "JSON_parse j = Some v \<and> hd j = LBRACE \<and> last j = RBRACE \<and>
      LBRACE \<notin> set p \<and> RBRACE \<notin> set q \<and>
      (\<not> inString (fold esc_step p esc_init) \<or> (LF \<notin> set j \<and> CR \<notin> set j)) \<and>
      \<not> includes_str (p @ j @ q) fence \<and>
      JSON_parse (trim (sanitize (p @ j @ q))) = None"
  from h have ne: "j \<noteq> []" by (auto simp: JSON_parse_def)
  from h sanitize_prose_around_json [of j v p q] obtain p' q' where
    s: "sanitize (p @ j @ q) = p' @ j @ q'" and pL: "LBRACE \<notin> set p'" and qR: "RBRACE \<notin> set q'"
    by blast
  obtain j' where j': "j = LBRACE # j'" using ne h by (cases j) auto
  obtain j'' where j'': "j = j'' @ [RBRACE]" using ne h by (cases j rule: rev_cases) auto
  have a: "indexOf LBRACE (p' @ j @ q') = Some (length p')"
    using indexOf_first [OF pL, of "j' @ q'"] by (simp add: j')
  have "lastIndexOf RBRACE ((p' @ j'') @ RBRACE # q') = Some (length (p' @ j''))"
    using qR by (rule lastIndexOf_last)
  then have b: "lastIndexOf RBRACE (p' @ j @ q') = Some (length p' + length j - 1)"
    by (simp add: j'')
  have "length p' + length j - 1 + 1 = length p' + length j" using ne by (cases j) auto
  then have sl: "slice (p' @ j @ q') (length p') (length p' + length j - 1 + 1) = j"
    using slice_middle [of p' j q'] by simp
  from h have d: "JSON_parse (trim (sanitize (p @ j @ q))) = None" by simp
  from recovery_parser_retry [OF d] a b s sl h
  show "recovery_parser (p @ j @ q) = Parsed v" by simp
qed

lemma includes_sublist: "includes_str s pat = sublist pat s"
  by (induction s) (auto simp: sublist_Cons_right)

lemma fence_no_backtick:
  assumes "BACKTICK \<notin> set w"
  shows "\<not> prefix fence (w @ r) \<or> w = []"
  using assms by (cases w) (auto simp: fence_def)

lemma includes_fence_append_plain:
  assumes "BACKTICK \<notin> set w"
  shows "includes_str (a @ w) fence = includes_str a fence"
proof -
  have "sublist fence (a @ w) = sublist fence a"
  proof
    assume "sublist fence (a @ w)"
    then consider (l) "sublist fence a" | (r) "sublist fence w"
      | (m) xs1 xs2 where "fence = xs1 @ xs2" "suffix xs1 a" "prefix xs2 w"
      by (auto simp: sublist_append)
    then show "sublist fence a"
    proof cases
      case l
      then show ?thesis .
    next
      case r
      then have "set fence \<subseteq> set w" by (rule set_mono_sublist)
      with assms show ?thesis by (auto simp: fence_def)
    next
      case m
      show ?thesis
      proof (cases "xs2 = []")
        case True
        with m(1,2) show ?thesis by (auto intro: suffix_imp_sublist)
      next
        case False
        with m(3) have "hd xs2 \<in> set w" by (cases xs2) (auto simp: prefix_def)
        moreover from False have "hd xs2 \<in> set xs2" by simp
        then have "hd xs2 \<in> set fence" unfolding m(1) by simp
        ultimately show ?thesis using assms by (auto simp: fence_def)
      qed
    qed
  next
    assume "sublist fence a"
    then show "sublist fence (a @ w)" by (simp add: sublist_append)
  qed
  then show ?thesis by (simp add: includes_sublist)
qed

lemma split_first_fence:
  assumes "\<not> includes_str a fence" and "a = [] \<or> last a \<noteq> BACKTICK"
  shows "split_first fence (a @ fence @ b) = Some (a, b)"
  using assms
proof (induction a)
  case Nil
  then show ?case by (simp add: fence_def)
next
  case (Cons c a)
  have np: "\<not> prefix fence ((c # a) @ fence @ b)"
  proof
    assume p: "prefix fence ((c # a) @ fence @ b)"
    show False
    proof (cases a)
      case Nil
      with p Cons.prems(2) show False by (auto simp: fence_def)
    next
      case (Cons x a')
      note a = Cons
      show False
      proof (cases a')
        case Nil
        with p a Cons.prems(2) show False by (auto simp: fence_def)
      next
        case (Cons y a'')
        with p a have "prefix fence (c # a)" by (auto simp: fence_def)
        with Cons.prems(1) show False by simp
      qed
    qed
  qed
  from Cons.prems have ih1: "\<not> includes_str a fence" by simp
  from Cons.prems(2) have ih2: "a = [] \<or> last a \<noteq> BACKTICK" by (cases a) auto
  from Cons.IH [OF ih1 ih2] np show ?case by (simp del: prefix_code)
qed

lemma dropWhile_spaces:
  "list_all is_space w \<Longrightarrow> r \<noteq> [] \<Longrightarrow> \<not> is_space (hd r) \<Longrightarrow> dropWhile is_space (w @ r) = r"
  by (induction w) (auto, cases r, auto)

lemma spaces_no_backtick: "list_all is_space w \<Longrightarrow> BACKTICK \<notin> set w"
  by (auto simp: list_all_iff is_space_def)

lemma json_tagged_append: "length tag = 4 \<Longrightarrow> json_tagged (tag @ r) = json_tagged tag"
  by (cases tag rule: json_tagged.cases) auto

lemma fence_match_first:
  assumes pre: "BACKTICK \<notin> set pre"
    and tag: "(tag = [] \<and> hd content \<noteq> 106 \<and> hd content \<noteq> 74) \<or> (length tag = 4 \<and> json_tagged tag)"
    and ws: "list_all is_space ws"
    and c1: "content \<noteq> []" and c2: "\<not> is_space (hd content)"
    and c3: "last content \<noteq> BACKTICK" and c4: "\<not> includes_str content fence"
  shows "fence_match (pre @ fence @ tag @ ws @ content @ fence @ post) = Some content"
proof -
  let ?r1 = "tag @ ws @ content @ fence @ post"
  have "\<not> includes_str pre fence"
    using pre includes_fence_append_plain [of pre "[]"] by (simp add: fence_def)
  moreover have "pre = [] \<or> last pre \<noteq> BACKTICK" using pre by (cases pre rule: rev_cases) auto
  ultimately have s1: "split_first fence (pre @ fence @ ?r1) = Some (pre, ?r1)"
    by (rule split_first_fence)
  have r2: "(if json_tagged ?r1 then drop 4 ?r1 else ?r1) = ws @ content @ fence @ post"
  proof (cases "tag = []")
    case True
    with tag have h: "hd content \<noteq> 106 \<and> hd content \<noteq> 74" by auto
    have "\<not> json_tagged (ws @ content @ fence @ post)"
    proof (cases ws)
      case Nil
      with c1 h show ?thesis by (cases content) (auto elim: json_tagged.elims)
    next
      case (Cons w ws')
      with ws have "is_space w" by simp
      then have "w \<noteq> 106 \<and> w \<noteq> 74" by (auto simp: is_space_def)
      with Cons show ?thesis by (auto elim: json_tagged.elims)
    qed
    with True show ?thesis by simp
  next
    case False
    with tag have t: "length tag = 4" "json_tagged tag" by auto
    then show ?thesis by (simp add: json_tagged_append)
  qed
  have r3: "dropWhile is_space (ws @ content @ fence @ post) = content @ fence @ post"
    using ws c1 c2 by (intro dropWhile_spaces) (auto simp: hd_append)
  have s2: "split_first fence (content @ fence @ post) = Some (content, post)"
    using c4 c3 by (intro split_first_fence) auto
  show ?thesis
    using s1 r2 r3 s2 by (simp add: fence_match_def Let_def)
qed

lemma dropWhile_all_spaces: "list_all is_space w \<Longrightarrow> dropWhile is_space w = []"
  by (induction w) auto

lemma trim_json_spaces:
  assumes "j \<noteq> []" and "hd j = LBRACE" and "last j = RBRACE" and "list_all is_space w"
  shows "trim (j @ w) = j" and "trim j = j"
proof -
  have r: "list_all is_space (rev w)" using assms(4) by (simp add: list_all_iff)
  from trim_around [of j "[]" w] assms(1-3) dropWhile_all_spaces [OF r]
  show "trim (j @ w) = j" by (simp add: not_space_brace)
  from trim_around [of j "[]" "[]"] assms(1-3)
  show "trim j = j" by (simp add: not_space_brace)
qed

lemma sanitize_fenced_json:
  assumes j: "JSON_parse j = Some v" and h: "hd j = LBRACE" and l: "last j = RBRACE"
    and nf: "\<not> includes_str j fence"
    and pre: "BACKTICK \<notin> set pre"
    and tag: "tag = [] \<or> (length tag = 4 \<and> json_tagged tag)"
    and ws1: "list_all is_space ws1" and ws2: "list_all is_space ws2"
  shows "sanitize (pre @ fence @ tag @ ws1 @ j @ ws2 @ fence @ post) = j"
proof -
  from j have ne: "j \<noteq> []" by (auto simp: JSON_parse_def)
  let ?content = "j @ ws2"
  have c1: "?content \<noteq> []" using ne by simp
  have c2: "\<not> is_space (hd ?content)" using ne h by (simp add: not_space_brace)
  have c3: "last ?content \<noteq> BACKTICK"
  proof (cases "ws2 = []")
    case True
    with l show ?thesis by simp
  next
    case False
    then have "last ws2 \<in> set ws2" by simp
    with ws2 have "is_space (last ws2)" by (simp add: list_all_iff)
    then have "last ws2 \<noteq> BACKTICK" by (auto simp: is_space_def)
    with False show ?thesis by simp
  qed
  have c4: "\<not> includes_str ?content fence"
    using nf includes_fence_append_plain [OF spaces_no_backtick [OF ws2], of j] by simp
  have t: "(tag = [] \<and> hd ?content \<noteq> 106 \<and> hd ?content \<noteq> 74) \<or>
           (length tag = 4 \<and> json_tagged tag)"
    using tag ne h by auto
  have "fence_match (pre @ fence @ tag @ ws1 @ ?content @ fence @ post) = Some ?content"
    using pre t ws1 c1 c2 c3 c4 by (rule fence_match_first)
  then have m: "fence_match (pre @ fence @ tag @ ws1 @ j @ ws2 @ fence @ post) = Some (j @ ws2)"
    by simp
  have e: "escapeNewlinesInStrings j = j"
    using escape_valid_json_context [OF j, of "[]" "[]"] by simp
  show ?thesis
    by (simp add: sanitize_def m remove_fences_none [OF c4]
        trim_json_spaces(1) [OF ne h l ws2] e)
qed

text \<open>
  What the fence stripping does. A text without a triple backtick is used whole. In a text
  that opens a fence after backtick-free prose, with or without the tag \<open>json\<close> in either
  case, the group is the text from the first unit that is not white space up to the next
  triple backtick, whatever follows that one. A text that \<open>JSON.parse\<close> accepts, beginning
  with \<open>{\<close>, ending with \<open>}\<close> and containing no triple backtick, wrapped in such a fence
  with white space around it, is decoded to its value.
\<close>

lemma fenced_round_trip:
  "(\<not> includes_str raw fence \<longrightarrow>
      fence_match raw = None \<and> sanitize raw = escapeNewlinesInStrings (trim raw)) \<and>
   (BACKTICK \<notin> set pre \<and>
    ((tag = [] \<and> hd content \<noteq> 106 \<and> hd content \<noteq> 74) \<or> (length tag = 4 \<and> json_tagged tag)) \<and>
    list_all is_space ws \<and> content \<noteq> [] \<and> \<not> is_space (hd content) \<and>
    last content \<noteq> BACKTICK \<and> \<not> includes_str content fence \<longrightarrow>
      fence_match (pre @ fence @ tag @ ws @ content @ fence @ post) = Some content) \<and>
   (JSON_parse j = Some v \<and> hd j = LBRACE \<and> last j = RBRACE \<and> \<not> includes_str j fence \<and>
    BACKTICK \<notin> set pre \<and> (tag = [] \<or> (length tag = 4 \<and> json_tagged tag)) \<and>
    list_all is_space ws1 \<and> list_all is_space ws2 \<longrightarrow>
      recovery_parser (pre @ fence @ tag @ ws1 @ j @ ws2 @ fence @ post) = Parsed v)"
proof (intro conjI impI)
  assume "\<not> includes_str raw fence"
  then show "fence_match raw = None" by (rule fence_match_none)
next
  assume "\<not> includes_str raw fence"
  then show "sanitize raw = escapeNewlinesInStrings (trim raw)"
    by (simp add: sanitize_def fence_match_none remove_fences_none)
next
  assume "BACKTICK \<notin> set pre \<and>
    ((tag = [] \<and> hd content \<noteq> 106 \<and> hd content \<noteq> 74) \<or> (length tag = 4 \<and> json_tagged tag)) \<and>
    list_all is_space ws \<and> content \<noteq> [] \<and> \<not> is_space (hd content) \<and>
    last content \<noteq> BACKTICK \<and> \<not> includes_str content fence"
  then show "fence_match (pre @ fence @ tag @ ws @ content @ fence @ post) = Some content"
    by (intro fence_match_first) simp_all
next
  assume a: "JSON_parse j = Some v \<and> hd j = LBRACE \<and> last j = RBRACE \<and> \<not> includes_str j fence \<and>
    BACKTICK \<notin> set pre \<and> (tag = [] \<or> (length tag = 4 \<and> json_tagged tag)) \<and>
    list_all is_space ws1 \<and> list_all is_space ws2"
  then have ne: "j \<noteq> []" by (auto simp: JSON_parse_def)
  from a have s: "sanitize (pre @ fence @ tag @ ws1 @ j @ ws2 @ fence @ post) = j"
    by (intro sanitize_fenced_json) simp_all
  have t: "trim j = j" using ne a by (intro trim_json_spaces(2) [of j "[]"]) simp_all
  show "recovery_parser (pre @ fence @ tag @ ws1 @ j @ ws2 @ fence @ post) = Parsed v"
    using a by (simp add: recovery_parser_def s t)
qed

lemma empty_response_wt: "wt_LLMResponse empty_response"
  by (simp add: empty_response_def one_of_def)

lemma empty_response_text_ends:
  "hd empty_response_text = LBRACE" "last empty_response_text = RBRACE"
  "\<not> includes_str empty_response_text fence"
  by (simp_all add: empty_response_text_def fence_def)

lemma lex_two_line: "JSON_parse two_line_text = Some empty_response"
  by (simp add: two_line_text_def empty_response_def json_eval)

lemma two_line_text_ends:
  "hd two_line_text = LBRACE" "last two_line_text = RBRACE"
  by (simp_all add: two_line_text_def)

text \<open>
  Claim C6 as stated fails: a \<open>{\<close> in the prose before or a \<open>}\<close> in the prose after
  moves the slice, and a double quote left open by the prose before makes the escaper
  rewrite the line feed between two members; each time the embedded response is lost to
  the parse-error response.
\<close>

theorem brace_extraction_counterexample:
  "JSON_parse empty_response_text = Some empty_response \<and>
   JSON_parse two_line_text = Some empty_response \<and>
   wt_LLMResponse empty_response \<and>
   \<not> includes_str (str ''See {docs}: '' @ empty_response_text) fence \<and>
   recovery_parser (str ''See {docs}: '' @ empty_response_text) = Fallback parse_error_response \<and>
   \<not> includes_str (empty_response_text @ str '' (docs})'') fence \<and>
   recovery_parser (empty_response_text @ str '' (docs})'') = Fallback parse_error_response \<and>
   \<not> includes_str (str ''Note \"x: '' @ two_line_text) fence \<and>
   recovery_parser (str ''Note \"x: '' @ two_line_text) = Fallback parse_error_response \<and>
   Fallback parse_error_response \<noteq> Parsed empty_response"
proof -
  have nf: "\<not> includes_str (str ''See {docs}: '' @ empty_response_text) fence"
    "\<not> includes_str (empty_response_text @ str '' (docs})'') fence"
    "\<not> includes_str (str ''Note \"x: '' @ two_line_text) fence"
    by (simp_all add: empty_response_text_def two_line_text_def fence_def)
  have s1: "sanitize (str ''See {docs}: '' @ empty_response_text)
             = str ''See {docs}: '' @ empty_response_text"
    by (simp add: empty_response_text_def text_eval)
  have r1: "recovery_parser (str ''See {docs}: '' @ empty_response_text)
              = Fallback parse_error_response"
    unfolding recovery_parser_def s1
    by (simp add: empty_response_text_def trim_def is_space_def lastIndexOf_def slice_def json_eval)
  have s2: "sanitize (empty_response_text @ str '' (docs})'')
             = empty_response_text @ str '' (docs})''"
    by (simp add: empty_response_text_def text_eval)
  have r2: "recovery_parser (empty_response_text @ str '' (docs})'')
              = Fallback parse_error_response"
    unfolding recovery_parser_def s2
    by (simp add: empty_response_text_def trim_def is_space_def lastIndexOf_def slice_def json_eval)
  have s3: "sanitize (str ''Note \"x: '' @ two_line_text)
             = str ''Note \"x: {\"impact_level\":\"none\",'' @ [BACKSLASH] @
               str ''n\"summary\":\"ok\",\"suggestions\":[]}''"
    by (simp add: two_line_text_def text_eval)
  have r3: "recovery_parser (str ''Note \"x: '' @ two_line_text) = Fallback parse_error_response"
    unfolding recovery_parser_def s3
    by (simp add: trim_def is_space_def lastIndexOf_def slice_def json_eval)
  show ?thesis
    using lex_empty_response lex_two_line empty_response_wt nf r1 r2 r3 by simp
qed

theorem brace_extraction_witness:
  "JSON_parse two_line_text = Some empty_response \<and>
   JSON_parse (trim (sanitize (str ''Here is the \"JSON\": '' @ two_line_text @ str '' {see \"x''))) = None \<and>
   recovery_parser (str ''Here is the \"JSON\": '' @ two_line_text @ str '' {see \"x'')
     = Parsed empty_response \<and>
   JSON_parse empty_response_text = Some empty_response \<and>
   JSON_parse (trim (sanitize (str ''Note \"x: '' @ empty_response_text))) = None \<and>
   recovery_parser (str ''Note \"x: '' @ empty_response_text) = Parsed empty_response"
proof -
  let ?p = "str ''Here is the \"JSON\": ''" and ?q = "str '' {see \"x''"
  let ?p' = "str ''Note \"x: ''"
  have nf: "\<not> includes_str (?p @ two_line_text @ ?q) fence"
    "\<not> includes_str (?p' @ empty_response_text @ []) fence"
    by (simp_all add: empty_response_text_def two_line_text_def fence_def)
  have st: "\<not> inString (fold esc_step ?p esc_init)"
    by (simp add: esc_step_def esc_init_def)
  have pl: "LF \<notin> set empty_response_text \<and> CR \<notin> set empty_response_text"
    by (simp add: empty_response_text_def)
  have d: "JSON_parse (trim (sanitize (?p @ two_line_text @ ?q))) = None"
    by (simp add: two_line_text_def text_eval json_eval)
  have d': "JSON_parse (trim (sanitize (?p' @ empty_response_text @ []))) = None"
    by (simp add: empty_response_text_def text_eval json_eval)
  from brace_extraction [of "?p @ two_line_text @ ?q" two_line_text empty_response ?p ?q]
    lex_two_line two_line_text_ends nf(1) st d
  have a: "recovery_parser (?p @ two_line_text @ ?q) = Parsed empty_response"
    by simp
  from brace_extraction [of "?p' @ empty_response_text @ []" empty_response_text empty_response
      ?p' "[]"]
    lex_empty_response empty_response_text_ends(1,2) nf(2) pl d'
  have b: "recovery_parser (?p' @ empty_response_text @ []) = Parsed empty_response"
    by simp
  from a b d d' lex_two_line lex_empty_response show ?thesis by simp
qed

lemma lex_backticks_response:
  "JSON_parse backticks_text = Some backticks_response"
  by (simp add: backticks_text_def backticks_response_def fence_def json_eval)

lemma backticks_response_wt: "wt_LLMResponse backticks_response"
  by (simp add: backticks_response_def one_of_def)

text \<open>
  Claim C7 fails on the code. A valid response whose summary contains a triple backtick,
  wrapped in a fenced \<open>json\<close> block, is not decoded to its value: the group of the regular
  expression ends at the first triple backtick after the opening fence, which is the one
  inside the summary, and the no-response fallback is returned.
\<close>

theorem fenced_response_cut_at_inner_backticks:
  "JSON_parse backticks_text = Some backticks_response \<and>
   wt_LLMResponse backticks_response \<and>
   recovery_parser (fence @ str ''json'' @ [LF] @ backticks_text @ [LF] @ fence)
     = Fallback no_response_response \<and>
   generateSuggestions
     (Inr (Some [Some [Some (fence @ str ''json'' @ [LF] @ backticks_text @ [LF] @ fence)]]))
     docsContext = Inr no_response_response \<and>
   Fallback no_response_response \<noteq> Parsed backticks_response"
proof -
  let ?t = "fence @ str ''json'' @ [LF] @ backticks_text @ [LF] @ fence"
  have m: "fence_match ?t = Some (str ''{\"impact_level\":\"low\",\"summary\":\"a'')"
    by (simp add: fence_match_def fence_def backticks_text_def is_space_def)
  have s: "sanitize ?t = str ''{\"impact_level\":\"low\",\"summary\":\"a''"
    unfolding sanitize_def m
    by (simp add: trim_def is_space_def escapeNewlinesInStrings_def esc_init_def esc_step_def)
  have p: "recovery_parser ?t = Fallback no_response_response"
    unfolding recovery_parser_def s
    by (simp add: trim_def is_space_def lastIndexOf_def json_eval)
  have r: "raw_text (Some [Some ?t]) = ?t"
    by (simp add: raw_text_def fence_def backticks_text_def trim_def is_space_def)
  have g: "generateSuggestions (Inr (Some [Some [Some ?t]])) docsContext = Inr no_response_response"
    unfolding generateSuggestions_def suggestions_of_text_def
    using r p by simp
  show ?thesis using lex_backticks_response backticks_response_wt p g by simp
qed

lemma fenced_round_trip_example:
  "JSON_parse empty_response_text = Some empty_response \<and>
   recovery_parser (fence @ str ''json'' @ [LF] @ empty_response_text @ [LF] @ fence)
     = Parsed empty_response"
proof -
  have "recovery_parser ([] @ fence @ str ''json'' @ [LF] @ empty_response_text @ [LF] @ fence @ [])
          = Parsed empty_response"
    using fenced_round_trip [where pre = "[]" and tag = "str ''json''" and j = empty_response_text
                                and v = empty_response and ?ws1.0 = "[LF]" and ?ws2.0 = "[LF]"
                                and post = "[]"]
      lex_empty_response empty_response_text_ends
    by (simp add: is_space_def)
  with lex_empty_response show ?thesis by simp
qed

theorem escaper_identity_on_valid_json_witness:
  "JSON_parse empty_response_text = Some empty_response \<and>
   escapeNewlinesInStrings empty_response_text = empty_response_text"
  using escaper_identity_on_valid_json [OF lex_empty_response] lex_empty_response by simp

lemma indexOf_None: "c \<notin> set s \<Longrightarrow> indexOf c s = None"
  by (induction s) auto

lemma lastIndexOf_None: "c \<notin> set s \<Longrightarrow> lastIndexOf c s = None"
  by (simp add: lastIndexOf_def indexOf_None)

lemma canonical_responses_wt:
  "wt_LLMResponse parse_error_response" "wt_LLMResponse no_response_response"
  by (simp_all add: parse_error_response_def no_response_response_def one_of_def)

lemma fallback_tier:
  assumes "JSON_parse (trim (sanitize raw)) = None"
  shows "LBRACE \<notin> set (sanitize raw) \<or> RBRACE \<notin> set (sanitize raw) \<Longrightarrow>
           suggestions_of_text raw docsContext = Inr no_response_response"
    and "indexOf LBRACE (sanitize raw) = Some a \<Longrightarrow> lastIndexOf RBRACE (sanitize raw) = Some b \<Longrightarrow>
           JSON_parse (slice (sanitize raw) a (b + 1)) = None \<Longrightarrow>
           suggestions_of_text raw docsContext = Inr parse_error_response"
  using assms
  by (auto simp: suggestions_of_text_def recovery_parser_def Let_def indexOf_None lastIndexOf_None
           split: option.splits)

text \<open>
  Claim C1 fails on the code. On the response text \<open>{}\<close> the direct parse succeeds and
  leaves an object without \<open>suggestions\<close>; \<open>parsed.suggestions.map\<close> then raises a
  TypeError, which leaves \<open>generateSuggestions\<close>, whatever the context is.
\<close>

theorem raises_on_object_without_suggestions:
  "recovery_parser (str ''{}'') = Parsed (JObj []) \<and>
   generateSuggestions (Inr (Some [Some [Some (str ''{}'')]])) docsContext = Inl TypeError"
proof -
  have r: "raw_text (Some [Some (str ''{}'')]) = str ''{}''"
    by (simp add: raw_text_def trim_def is_space_def)
  have p: "recovery_parser (str ''{}'') = Parsed (JObj [])"
    by (simp add: recovery_parser_def text_eval json_eval)
  show ?thesis
    using r p by (simp add: generateSuggestions_def suggestions_of_text_def enrich_def)
qed

text \<open>
  The same happens on the response text \<open>[]\<close>: it has no brace, but the direct parse
  succeeds, so no \<open>catch\<close> runs and the enrichment raises on the decoded array.
\<close>

lemma raises_on_array_text:
  "LBRACE \<notin> set (sanitize (str ''[]'')) \<and> RBRACE \<notin> set (sanitize (str ''[]'')) \<and>
   generateSuggestions (Inr (Some [Some [Some (str ''[]'')]])) docsContext = Inl TypeError"
proof -
  have r: "raw_text (Some [Some (str ''[]'')]) = str ''[]''"
    by (simp add: raw_text_def trim_def is_space_def)
  have s: "sanitize (str ''[]'') = str ''[]''"
    by (simp add: text_eval)
  have p: "recovery_parser (str ''[]'') = Parsed (JArr [])"
    unfolding recovery_parser_def s by (simp add: trim_def is_space_def json_eval)
  show ?thesis
    using r p s by (simp add: generateSuggestions_def suggestions_of_text_def enrich_def)
qed

text \<open>
  Claim C4. When the direct parse of the sanitized text fails and the retry does not decode
  either, because the sanitized text has no \<open>{\<close> or no \<open>}\<close> or because the slice between
  them does not decode, the ladder returns a canonical empty response: impact level
  \<open>none\<close>, one of the two fixed summaries, no suggestions. The response is well typed,
  skips the enrichment, and is what \<open>generateSuggestions\<close> returns: nothing is raised.
\<close>

theorem fallback_canonical_empty:
  assumes "JSON_parse (trim (sanitize raw)) = None"
    and "LBRACE \<notin> set (sanitize raw) \<or> RBRACE \<notin> set (sanitize raw) \<or>
         (\<exists>a b. indexOf LBRACE (sanitize raw) = Some a \<and>
                lastIndexOf RBRACE (sanitize raw) = Some b \<and>
                JSON_parse (slice (sanitize raw) a (b + 1)) = None)"
  shows "\<exists>summary.
           recovery_parser raw =
             Fallback (JObj [(str ''impact_level'', JStr (str ''none'')),
                             (str ''summary'', JStr summary),
                             (str ''suggestions'', JArr [])]) \<and>
           suggestions_of_text raw docsContext =
             Inr (JObj [(str ''impact_level'', JStr (str ''none'')),
                        (str ''summary'', JStr summary),
                        (str ''suggestions'', JArr [])]) \<and>
           (raw_text candidate = raw \<longrightarrow>
              generateSuggestions (Inr (Some (candidate # rest))) docsContext =
                Inr (JObj [(str ''impact_level'', JStr (str ''none'')),
                           (str ''summary'', JStr summary),
                           (str ''suggestions'', JArr [])])) \<and>
           summary =
             (if LBRACE \<notin> set (sanitize raw) \<or> RBRACE \<notin> set (sanitize raw)
              then str ''Unable to generate suggestions - no valid response.''
              else str ''Unable to generate suggestions due to parsing error.'') \<and>
           wt_LLMResponse (JObj [(str ''impact_level'', JStr (str ''none'')),
                                 (str ''summary'', JStr summary),
                                 (str ''suggestions'', JArr [])])"
proof (cases "LBRACE \<notin> set (sanitize raw) \<or> RBRACE \<notin> set (sanitize raw)")
  case True
  then have r: "recovery_parser raw = Fallback no_response_response"
    using assms(1)
    by (auto simp: recovery_parser_def Let_def indexOf_None lastIndexOf_None
             split: option.splits)
  have w: "wt_LLMResponse no_response_response" by (rule canonical_responses_wt(2))
  show ?thesis
    using True r w
    by (simp add: suggestions_of_text_def generateSuggestions_def no_response_response_def)
next
  case False
  with assms(2) obtain a b where ab: "indexOf LBRACE (sanitize raw) = Some a"
      "lastIndexOf RBRACE (sanitize raw) = Some b"
      "JSON_parse (slice (sanitize raw) a (b + 1)) = None"
    by blast
  have r: "recovery_parser raw = Fallback parse_error_response"
    using recovery_parser_retry [OF assms(1) ab(1,2)] ab(3) by simp
  have w: "wt_LLMResponse parse_error_response" by (rule canonical_responses_wt(1))
  show ?thesis
    using False r w
    by (simp add: suggestions_of_text_def generateSuggestions_def parse_error_response_def)
qed

theorem fallback_canonical_empty_witness:
  "JSON_parse (trim (sanitize (str ''no json here''))) = None \<and>
   LBRACE \<notin> set (sanitize (str ''no json here'')) \<and>
   generateSuggestions (Inr (Some [Some [Some (str ''no json here'')]])) [] =
     Inr (JObj [(str ''impact_level'', JStr (str ''none'')),
                (str ''summary'', JStr (str ''Unable to generate suggestions - no valid response.'')),
                (str ''suggestions'', JArr [])]) \<and>
   JSON_parse (trim (sanitize (str ''{oops}''))) = None \<and>
   LBRACE \<in> set (sanitize (str ''{oops}'')) \<and> RBRACE \<in> set (sanitize (str ''{oops}'')) \<and>
   generateSuggestions (Inr (Some [Some [Some (str ''{oops}'')]])) [] =
     Inr (JObj [(str ''impact_level'', JStr (str ''none'')),
                (str ''summary'', JStr (str ''Unable to generate suggestions due to parsing error.'')),
                (str ''suggestions'', JArr [])])"
proof -
  let ?g = "str ''no json here''" and ?o = "str ''{oops}''"
  have s: "sanitize ?g = ?g" "sanitize ?o = ?o"
    by (simp_all add: text_eval)
  have d: "JSON_parse (trim (sanitize ?g)) = None" "JSON_parse (trim (sanitize ?o)) = None"
    unfolding s by (simp_all add: trim_def is_space_def json_eval)
  have b: "LBRACE \<notin> set (sanitize ?g)" "LBRACE \<in> set (sanitize ?o)" "RBRACE \<in> set (sanitize ?o)"
    unfolding s by simp_all
  have i: "indexOf LBRACE (sanitize ?o) = Some 0" "lastIndexOf RBRACE (sanitize ?o) = Some 5"
    "JSON_parse (slice (sanitize ?o) 0 (5 + 1)) = None"
    unfolding s by (simp_all add: lastIndexOf_def slice_def json_eval)
  have r: "raw_text (Some [Some ?g]) = ?g" "raw_text (Some [Some ?o]) = ?o"
    by (simp_all add: raw_text_def trim_def is_space_def)
  from fallback_canonical_empty [OF d(1), where candidate = "Some [Some ?g]" and rest = "[]"
      and docsContext = "[]"] b(1) r(1)
  have g1: "generateSuggestions (Inr (Some [Some [Some ?g]])) [] =
     Inr (JObj [(str ''impact_level'', JStr (str ''none'')),
                (str ''summary'', JStr (str ''Unable to generate suggestions - no valid response.'')),
                (str ''suggestions'', JArr [])])"
    by auto
  from fallback_canonical_empty [OF d(2), where candidate = "Some [Some ?o]" and rest = "[]"
      and docsContext = "[]"] b(2,3) i r(2)
  have g2: "generateSuggestions (Inr (Some [Some [Some ?o]])) [] =
     Inr (JObj [(str ''impact_level'', JStr (str ''none'')),
                (str ''summary'', JStr (str ''Unable to generate suggestions due to parsing error.'')),
                (str ''suggestions'', JArr [])])"
    by auto
  from d b g1 g2 show ?thesis by simp
qed

section \<open>The run-time library\<close>

lemma split_on_nonempty: "split_on d cs \<noteq> []"
  by (induction cs) (auto split: list.splits)

section \<open>Enrichment keeps a response well typed\<close>

lemma enrich_suggestion_wt:
  assumes "wt_Suggestion s"
  shows "\<exists>s'. enrich_suggestion ctx s = Inr s' \<and> wt_Suggestion s'"
proof -
  from assms obtain qs where s: "s = JObj qs" by (cases s) auto
  let ?m = "find (\<lambda>d. JStr (file' d) = get_prop qs (str ''target_file'')) ctx"
  have n: "is_opt_number (line_of f ?m)" for f
    by (cases ?m) (simp_all add: line_of_def)
  show ?thesis
    using assms n [of startLine] n [of endLine]
    by (simp add: s enrich_suggestion_def find_doc_object get_set_prop)
qed

lemma map_err_wt:
  assumes "list_all wt_Suggestion ss"
  shows "\<exists>ss'. map_err (enrich_suggestion ctx) ss = Inr ss' \<and> list_all wt_Suggestion ss'"
  using assms
proof (induction ss)
  case Nil
  then show ?case by simp
next
  case (Cons s ss)
  then obtain ss' where
    ss': "map_err (enrich_suggestion ctx) ss = Inr ss'" "list_all wt_Suggestion ss'"
    by auto
  from Cons.prems enrich_suggestion_wt [of s ctx] obtain s' where
    s': "enrich_suggestion ctx s = Inr s'" "wt_Suggestion s'"
    by auto
  show ?case using ss' s' by simp
qed

lemma enrich_wt:
  assumes "wt_LLMResponse parsed"
  shows "\<exists>r. enrich ctx parsed = Inr r \<and> wt_LLMResponse r"
proof -
  from assms obtain ps where ps: "parsed = JObj ps" by (cases parsed) auto
  with assms obtain ss where ss: "get_prop ps (str ''suggestions'') = JArr ss"
    and wts: "list_all wt_Suggestion ss"
    by (cases "get_prop ps (str ''suggestions'')") auto
  from map_err_wt [OF wts, of ctx] obtain ss' where
    ss': "map_err (enrich_suggestion ctx) ss = Inr ss'" "list_all wt_Suggestion ss'"
    by blast
  show ?thesis
    using assms ss ss' by (simp add: ps enrich_def get_set_prop)
qed

section \<open>The repository's unit test\<close>

text \<open>
  The model returns what the test \<open>parses and sanitizes LLM output while attaching line
  numbers\<close> expects: impact level \<open>low\<close>, one suggestion for \<open>docs/guide.md\<close> whose text is
  \<open>First line\<close>, a line feed, \<open>Second line\<close>, with lines 10 to 20.
\<close>

lemma unit_test_sanitize: "sanitize unit_test_text = unit_test_sanitized"
  by (simp add: unit_test_text_def unit_test_json_def unit_test_sanitized_def sanitize_def
      fence_match_def fence_def trim_def is_space_def escape_is_scan)

lemma unit_test_trim: "trim unit_test_sanitized = unit_test_sanitized"
  by (simp add: unit_test_sanitized_def trim_def is_space_def)

lemma unit_test_parse: "JSON_parse unit_test_sanitized = Some unit_test_parsed"
  by (simp add: unit_test_sanitized_def unit_test_parsed_def json_eval)

lemma unit_test_generateSuggestions:
  "generateSuggestions (Inr (Some [Some [Some unit_test_text]])) unit_test_context
     = Inr unit_test_result"
proof -
  have r: "raw_text (Some [Some unit_test_text]) = unit_test_text"
    by (simp add: raw_text_def unit_test_text_def unit_test_json_def fence_def trim_def
        is_space_def)
  have e: "enrich unit_test_context unit_test_parsed = Inr unit_test_result"
    by (simp add: enrich_def enrich_suggestion_def line_of_def unit_test_context_def
        unit_test_parsed_def unit_test_result_def)
  show ?thesis
    by (simp add: generateSuggestions_def suggestions_of_text_def r recovery_parser_def
        unit_test_sanitize unit_test_trim unit_test_parse e)
qed

end
